theory Spec2Isabelle
  imports Main "HOL-Library.Sublist"
begin

section \<open>Data of the rule engine\<close>

text \<open>
  The validator reads only a few fields of what axe-core returns: of an affected node its
  \<open>target\<close> path (which may be missing), of a violation its id, impact, help text,
  description and affected nodes. The other fields of the interfaces are never read and are
  left out.
\<close>

record axe_node =
  target :: "string list option"

record axe_violation =
  violation_id :: string
  impact :: "string option"
  description :: string
  help_text :: string
  nodes :: "axe_node list"

datatype run_only_type = Rule | Tag

record run_only =
  run_type :: run_only_type
  run_values :: "string list"

record axe_run_options =
  runOnly :: "run_only option"

text \<open>
  What can be raised: the SyntaxError and the InvalidCharacterError of the DOM, and the
  rejection of the promise of \<open>axe.run\<close>.
\<close>

datatype exn = SyntaxError | InvalidCharacterError | AxeFailure

section \<open>The host page\<close>

text \<open>
  Elements are identified by numbers. The document is its head and its body, each a tree of
  elements in document order. An element carries its tag name, its id attribute, its class
  list, the markup the validator wrote into it (the inner markup of a badge or a popup is
  kept as a value, not as nodes; of the style sheet the class names its default rules are
  written for and the custom CSS appended to them), the \<open>_outsideClickHandler\<close> property the
  validator stores on a popup, and its children. The elements that \<open>innerHTML\<close> creates
  inside a badge or a popup are not elements of this document: a lookup by selector does
  not find them.
\<close>

type_synonym elem = nat

datatype markup =
    NoMarkup
  | BadgeMarkup nat string
  | PopupMarkup "(string \<times> string) list"
  | StyleMarkup "string list" string

datatype dnode =
  Element (nid: elem) (tagName: string) (ident: string) (classList: "string list")
    (markup: markup) (outsideClickHandler: "elem option") (childNodes: "dnode list")

record document =
  head :: dnode
  body :: dnode

fun flatten :: "dnode \<Rightarrow> dnode list" where
  "flatten (Element n t i c m h ks) = Element n t i c m h ks # concat (map flatten ks)"

definition allElements :: "document \<Rightarrow> dnode list" where
  "allElements d = flatten (head d) @ flatten (body d)"

fun mapTree :: "(dnode \<Rightarrow> dnode) \<Rightarrow> dnode \<Rightarrow> dnode" where
  "mapTree f (Element n t i c m h ks) = f (Element n t i c m h (map (mapTree f) ks))"

definition mapDocument :: "(dnode \<Rightarrow> dnode) \<Rightarrow> document \<Rightarrow> document" where
  "mapDocument f d = \<lparr> head = mapTree f (head d), body = mapTree f (body d) \<rparr>"

fun setClassList :: "string list \<Rightarrow> dnode \<Rightarrow> dnode" where
  "setClassList c' (Element n t i c m h ks) = Element n t i c' m h ks"

fun setChildNodes :: "dnode list \<Rightarrow> dnode \<Rightarrow> dnode" where
  "setChildNodes ks' (Element n t i c m h ks) = Element n t i c m h ks'"

definition atElement :: "elem \<Rightarrow> (dnode \<Rightarrow> dnode) \<Rightarrow> dnode \<Rightarrow> dnode" where
  "atElement w g n = (if nid n = w then g n else n)"

text \<open>\<open>a.contains(b)\<close>: \<open>b\<close> is \<open>a\<close> itself or lies in the subtree of \<open>a\<close>.\<close>

definition contains :: "document \<Rightarrow> elem \<Rightarrow> elem \<Rightarrow> bool" where
  "contains d a b =
     (a = b \<or> list_ex (\<lambda>n. nid n = a \<and> b \<in> set (map nid (flatten n))) (allElements d))"

text \<open>
  The selector engine, the rule engine and the host name belong to the host, not to the
  repository. They are parameters: which strings are selectors, which elements a selector
  matches in a document, what the k-th invocation of \<open>axe.run\<close> answers (a rejection or a
  violation list), and \<open>window.location.hostname\<close>.
\<close>

record host =
  selectorValid :: "string \<Rightarrow> bool"
  selectorMatches :: "string \<Rightarrow> document \<Rightarrow> elem \<Rightarrow> bool"
  axeRun :: "nat \<Rightarrow> exn + axe_violation list"
  hostname :: string

definition querySelectorAll :: "host \<Rightarrow> document \<Rightarrow> string \<Rightarrow> exn + elem list" where
  "querySelectorAll H d sel =
     (if selectorValid H sel
      then Inr (filter (selectorMatches H sel d) (map nid (allElements d)))
      else Inl SyntaxError)"

definition querySelector :: "host \<Rightarrow> document \<Rightarrow> string \<Rightarrow> exn + elem option" where
  "querySelector H d sel =
     (case querySelectorAll H d sel of
        Inl e \<Rightarrow> Inl e
      | Inr [] \<Rightarrow> Inr None
      | Inr (x # xs) \<Rightarrow> Inr (Some x))"

fun join :: "string \<Rightarrow> string list \<Rightarrow> string" where
  "join sep [] = []"
| "join sep [x] = x"
| "join sep (x # y # ys) = x @ sep @ join sep (y # ys)"

section \<open>Configuration and validator state\<close>

text \<open>
  Arrays and configuration objects live in a store, because the source shares them by
  reference: a configuration object holds references to its selector, rule, tag and event
  arrays. The arrays of \<open>DEFAULT_CONFIG\<close> are static and sit at two fixed references.
\<close>

type_synonym ref = nat

record ui_classes =
  OUTLINE :: string
  BADGE :: string
  POPUP :: string
  CLOSE :: string

text \<open>
  A key of an object literal that a caller writes is absent, present with the value
  \<open>undefined\<close>, or present with a value. Reading the key gives \<open>undefined\<close> in the first two
  cases; a spread copies the key in the last two.
\<close>

datatype 'a key = Absent | Undefined | Given 'a

fun keyValue :: "'a key \<Rightarrow> 'a option" where
  "keyValue Absent = None"
| "keyValue Undefined = None"
| "keyValue (Given x) = Some x"

record partial_ui_classes =
  OUTLINE_opt :: "string key"
  BADGE_opt :: "string key"
  POPUP_opt :: "string key"
  CLOSE_opt :: "string key"

record validator_config =
  widgetSelectors :: ref
  axeRules :: "ref option"
  axeTags :: "ref option"
  debounceDelay :: "nat option"
  enableMutationObserver :: "bool option"
  maxRetries :: "nat option"
  cfg_uiClasses :: "partial_ui_classes option"
  cmsEvents :: "ref option"
  customCSS :: "string option"
  enableDebugLogging :: "bool option"

record widget_state =
  lastViolationCount :: int
  hasUI :: bool

record partial_widget_state =
  lastViolationCount_opt :: "int option"
  hasUI_opt :: "bool option"

text \<open>
  Effects are logged in the order they happen: writes to the document, invocations of the
  rule engine with the options passed, the backoff pause, console output, timer calls and
  entries into \<open>recheckAll\<close>.
\<close>

datatype event =
    ClassListRemove elem string
  | ClassListAdd elem string
  | RemoveNode elem
  | AppendChild elem elem
  | AddClickListener elem
  | RemoveClickListener elem
  | AxeRunCall axe_run_options
  | Pause nat
  | ConsoleLog
  | ConsoleWarn
  | SetTimeout nat nat
  | ClearTimeout nat
  | ObserverObserve
  | ObserverDisconnect
  | RecheckAllEntered

fun isDomWrite :: "event \<Rightarrow> bool" where
  "isDomWrite (ClassListRemove w c) = True"
| "isDomWrite (ClassListAdd w c) = True"
| "isDomWrite (RemoveNode n) = True"
| "isDomWrite (AppendChild w n) = True"
| "isDomWrite (AddClickListener h) = True"
| "isDomWrite (RemoveClickListener h) = True"
| "isDomWrite e = False"

fun isAxeRun :: "event \<Rightarrow> bool" where
  "isAxeRun (AxeRunCall opts) = True"
| "isAxeRun e = False"

text \<open>
  The first five fields are the instance fields of the class (\<open>isInitialized\<close> guards the
  constructor only and is left out); the others are the page: the object store, the
  document, the click listeners registered on the document, the pending timers of this
  validator with their due times, the clock, and the log of effects.
\<close>

record validator =
  config :: ref
  widgetCache :: "elem \<Rightarrow> widget_state option"
  recheckTimeout :: "nat option"
  mutationObserver :: bool
  uiClasses :: ui_classes
  objects :: "ref \<Rightarrow> validator_config"
  arrays :: "ref \<Rightarrow> string list"
  nextRef :: ref
  document :: document
  nextElem :: elem
  clickListeners :: "elem list"
  timers :: "(nat \<times> nat) list"
  clock :: nat
  nextTimer :: nat
  effects :: "event list"

definition emit :: "event \<Rightarrow> validator \<Rightarrow> validator" where
  "emit e s = s\<lparr> effects := effects s @ [e] \<rparr>"

definition theConfig :: "validator \<Rightarrow> validator_config" where
  "theConfig s = objects s (config s)"


definition axeCalls :: "validator \<Rightarrow> nat" where
  "axeCalls s = length (filter isAxeRun (effects s))"

definition audits :: "validator \<Rightarrow> nat" where
  "audits s = length (filter (\<lambda>e. e = RecheckAllEntered) (effects s))"

section \<open>Widget registry and widget state\<close>

definition getCombinedSelector :: "validator \<Rightarrow> string" where
  "getCombinedSelector s = join '', '' (arrays s (widgetSelectors (theConfig s)))"

definition getAllWidgets :: "host \<Rightarrow> validator \<Rightarrow> exn + elem list" where
  "getAllWidgets H s = querySelectorAll H (document s) (getCombinedSelector s)"

definition getWidgetState :: "validator \<Rightarrow> elem \<Rightarrow> widget_state" where
  "getWidgetState s w =
     (case widgetCache s w of
        Some st \<Rightarrow> st
      | None \<Rightarrow> \<lparr> lastViolationCount = - 1, hasUI = False \<rparr>)"

definition setWidgetState :: "elem \<Rightarrow> partial_widget_state \<Rightarrow> validator \<Rightarrow> validator" where
  "setWidgetState w p s =
     (let cur = getWidgetState s w in
      s\<lparr> widgetCache := (widgetCache s)(w \<mapsto>
           \<lparr> lastViolationCount =
               (case lastViolationCount_opt p of Some c \<Rightarrow> c | None \<Rightarrow> lastViolationCount cur),
             hasUI = (case hasUI_opt p of Some b \<Rightarrow> b | None \<Rightarrow> hasUI cur) \<rparr>) \<rparr>)"

section \<open>UI renderer\<close>

definition createBadge :: "nat \<Rightarrow> validator \<Rightarrow> dnode \<times> validator" where
  "createBadge violationCount s =
     (Element (nextElem s) ''button'' [] [BADGE (uiClasses s)]
        (BadgeMarkup violationCount (if violationCount = 1 then ''issue'' else ''issues''))
        None [],
      s\<lparr> nextElem := Suc (nextElem s) \<rparr>)"

definition formatViolation :: "axe_violation \<Rightarrow> string \<times> string" where
  "formatViolation v =
     (''['' @ violation_id v @ ''] '' @ (case impact v of Some i \<Rightarrow> i | None \<Rightarrow> []),
      (if help_text v \<noteq> [] then help_text v else description v))"

definition createPopup :: "axe_violation list \<Rightarrow> validator \<Rightarrow> dnode \<times> validator" where
  "createPopup violations s =
     (Element (nextElem s) ''div'' [] [POPUP (uiClasses s)]
        (PopupMarkup (map formatViolation violations)) None [],
      s\<lparr> nextElem := Suc (nextElem s) \<rparr>)"

definition classListRemove :: "elem \<Rightarrow> string \<Rightarrow> validator \<Rightarrow> validator" where
  "classListRemove w c s =
     emit (ClassListRemove w c)
       (s\<lparr> document := mapDocument
             (atElement w (\<lambda>n. setClassList (removeAll c (classList n)) n)) (document s) \<rparr>)"

definition classListAdd :: "elem \<Rightarrow> string \<Rightarrow> validator \<Rightarrow> validator" where
  "classListAdd w c s =
     emit (ClassListAdd w c)
       (s\<lparr> document := mapDocument
             (atElement w (\<lambda>n. if c \<in> set (classList n) then n
                                else setClassList (classList n @ [c]) n)) (document s) \<rparr>)"

definition appendChild :: "elem \<Rightarrow> dnode \<Rightarrow> validator \<Rightarrow> validator" where
  "appendChild w k s =
     emit (AppendChild w (nid k))
       (s\<lparr> document := mapDocument
             (atElement w (\<lambda>n. setChildNodes (childNodes n @ [k]) n)) (document s) \<rparr>)"

text \<open>
  The DOM validates what it is given before it acts. \<open>classList.remove\<close> and
  \<open>classList.add\<close> raise a SyntaxError for the empty token and an InvalidCharacterError for
  a token with ASCII whitespace. \<open>querySelectorAll\<close> and \<open>querySelector\<close> raise a
  SyntaxError for a string that the host does not accept as a selector; the renderer builds
  the selectors \<open>:scope > .BADGE, :scope > .POPUP\<close> and \<open>.CLOSE\<close> from the class names, and
  \<open>destroy\<close> the selector \<open>.POPUP\<close>.
\<close>

definition asciiWhitespace :: "char \<Rightarrow> bool" where
  "asciiWhitespace c =
     (c = CHR 0x09 \<or> c = CHR 0x0A \<or> c = CHR 0x0C \<or> c = CHR 0x0D \<or> c = CHR '' '')"

definition tokenError :: "string \<Rightarrow> exn option" where
  "tokenError token =
     (if token = [] then Some SyntaxError
      else if list_ex asciiWhitespace token then Some InvalidCharacterError
      else None)"

definition overlaySelector :: "ui_classes \<Rightarrow> string" where
  "overlaySelector u = '':scope > .'' @ BADGE u @ '', :scope > .'' @ POPUP u"

definition closeSelector :: "ui_classes \<Rightarrow> string" where
  "closeSelector u = ''.'' @ CLOSE u"

definition popupSelector :: "ui_classes \<Rightarrow> string" where
  "popupSelector u = ''.'' @ POPUP u"

text \<open>
  A plain name is an ASCII letter or an underscore, followed by ASCII letters, digits,
  hyphens and underscores: a CSS identifier that is written without escapes, and a single
  class token.
\<close>

definition nameStart :: "char \<Rightarrow> bool" where
  "nameStart c =
     (c \<in> set ''abcdefghijklmnopqrstuvwxyzABCDEFGHIJKLMNOPQRSTUVWXYZ_'')"

definition nameChar :: "char \<Rightarrow> bool" where
  "nameChar c = (nameStart c \<or> c \<in> set ''0123456789-'')"

fun plainName :: "string \<Rightarrow> bool" where
  "plainName [] = False"
| "plainName (c # cs) = (nameStart c \<and> list_all nameChar cs)"

text \<open>
  Each of \<open>clearWidgetUI\<close> and \<open>renderWidgetUI\<close> is given in two parts: the state a call
  leaves when it returns (\<open>clearWidgetUI\<close>, \<open>renderWidgetUI\<close>), and what a call raises, with
  the state it leaves then, when the DOM rejects one of its calls (\<open>clearRejected\<close>,
  \<open>renderRejected\<close>). The overlay selector is taken to select the children of the widget
  that carry the badge or the popup class, which is what it selects when the two class
  names are plain names, as the default ones are.
\<close>

definition isOverlay :: "ui_classes \<Rightarrow> dnode \<Rightarrow> bool" where
  "isOverlay u k = (BADGE u \<in> set (classList k) \<or> POPUP u \<in> set (classList k))"

definition overlayChildren :: "validator \<Rightarrow> elem \<Rightarrow> elem list" where
  "overlayChildren s w =
     concat (map (\<lambda>n. map nid (filter (isOverlay (uiClasses s)) (childNodes n)))
               (filter (\<lambda>n. nid n = w) (allElements (document s))))"

definition removeOverlayChildren :: "elem \<Rightarrow> validator \<Rightarrow> validator" where
  "removeOverlayChildren w s =
     (let gone = overlayChildren s w in
      s\<lparr> document := mapDocument
            (atElement w (\<lambda>n. setChildNodes
               (filter (\<lambda>k. \<not> isOverlay (uiClasses s) k) (childNodes n)) n)) (document s),
         effects := effects s @ map RemoveNode gone \<rparr>)"

definition clearWidgetUI :: "elem \<Rightarrow> validator \<Rightarrow> validator" where
  "clearWidgetUI w s =
     setWidgetState w \<lparr> lastViolationCount_opt = Some 0, hasUI_opt = Some False \<rparr>
       (removeOverlayChildren w (classListRemove w (OUTLINE (uiClasses s)) s))"

text \<open>
  \<open>classList.remove\<close> rejects its token before anything is written; the overlay selector
  is rejected after the outline class of the widget has been removed.
\<close>

definition clearRejected :: "host \<Rightarrow> elem \<Rightarrow> validator \<Rightarrow> (exn \<times> validator) option" where
  "clearRejected H w s =
     (case tokenError (OUTLINE (uiClasses s)) of
        Some e \<Rightarrow> Some (e, s)
      | None \<Rightarrow>
          if selectorValid H (overlaySelector (uiClasses s)) then None
          else Some (SyntaxError, classListRemove w (OUTLINE (uiClasses s)) s))"

definition callClearWidgetUI :: "host \<Rightarrow> elem \<Rightarrow> validator \<Rightarrow> exn option \<times> validator" where
  "callClearWidgetUI H w s =
     (case clearRejected H w s of
        Some (e, s') \<Rightarrow> (Some e, s')
      | None \<Rightarrow> (None, clearWidgetUI w s))"

text \<open>
  The closure \<open>outsideClickHandler\<close> created for a popup is identified by the popup's
  element; it is registered on the document and stored on the popup.
\<close>

definition setupUIInteractions :: "dnode \<Rightarrow> dnode \<Rightarrow> elem \<Rightarrow> validator \<Rightarrow> validator" where
  "setupUIInteractions btn popup w s =
     emit (AddClickListener (nid popup))
       (s\<lparr> clickListeners := clickListeners s @ [nid popup],
           document := mapDocument
             (atElement (nid popup)
                (\<lambda>n. Element (nid n) (tagName n) (ident n) (classList n) (markup n)
                        (Some (nid popup)) (childNodes n))) (document s) \<rparr>)"

definition renderWidgetUI :: "elem \<Rightarrow> axe_violation list \<Rightarrow> validator \<Rightarrow> validator" where
  "renderWidgetUI w violations s =
     (let currentState = getWidgetState s w;
          violationCount = length violations in
      if lastViolationCount currentState = int violationCount
         \<and> hasUI currentState = (violationCount > 0)
      then s
      else if violationCount = 0 then clearWidgetUI w s
      else
        (let s1 = clearWidgetUI w s;
             s2 = classListAdd w (OUTLINE (uiClasses s1)) s1;
             (btn, s3) = createBadge violationCount s2;
             (popup, s4) = createPopup violations s3;
             s5 = appendChild w btn s4;
             s6 = appendChild w popup s5;
             s7 = setupUIInteractions btn popup w s6
         in setWidgetState w
              \<lparr> lastViolationCount_opt = Some (int violationCount), hasUI_opt = Some True \<rparr> s7))"

text \<open>
  A render of a non-empty list looks up the close button of the new popup in
  \<open>setupUIInteractions\<close>, after the badge and the popup have been appended to the widget and
  before the outside-click handler is registered and the widget state is stored:
  \<open>attachOverlay\<close> is the state at that lookup. \<open>classList.add\<close> is given the token that
  \<open>classList.remove\<close> has accepted in \<open>clearWidgetUI\<close>.
\<close>

definition attachOverlay :: "elem \<Rightarrow> axe_violation list \<Rightarrow> validator \<Rightarrow> validator" where
  "attachOverlay w violations s =
     (let s1 = clearWidgetUI w s;
          s2 = classListAdd w (OUTLINE (uiClasses s1)) s1;
          (btn, s3) = createBadge (length violations) s2;
          (popup, s4) = createPopup violations s3;
          s5 = appendChild w btn s4
      in appendChild w popup s5)"

definition renderRejected ::
  "host \<Rightarrow> elem \<Rightarrow> axe_violation list \<Rightarrow> validator \<Rightarrow> (exn \<times> validator) option" where
  "renderRejected H w violations s =
     (let currentState = getWidgetState s w;
          violationCount = length violations in
      if lastViolationCount currentState = int violationCount
         \<and> hasUI currentState = (violationCount > 0)
      then None
      else
        (case clearRejected H w s of
           Some r \<Rightarrow> Some r
         | None \<Rightarrow>
             if violationCount = 0 \<or> selectorValid H (closeSelector (uiClasses s)) then None
             else Some (SyntaxError, attachOverlay w violations s)))"

definition callRenderWidgetUI ::
  "host \<Rightarrow> elem \<Rightarrow> axe_violation list \<Rightarrow> validator \<Rightarrow> exn option \<times> validator" where
  "callRenderWidgetUI H w violations s =
     (case renderRejected H w violations s of
        Some (e, s') \<Rightarrow> (Some e, s')
      | None \<Rightarrow> (None, renderWidgetUI w violations s))"

text \<open>\<open>widgets.forEach\<close> of a call that may raise: the first exception ends the loop.\<close>

fun forEach ::
  "('a \<Rightarrow> validator \<Rightarrow> exn option \<times> validator) \<Rightarrow> 'a list \<Rightarrow> validator
   \<Rightarrow> exn option \<times> validator" where
  "forEach f [] s = (None, s)"
| "forEach f (x # xs) s =
     (case f x s of
        (Some e, s') \<Rightarrow> (Some e, s')
      | (None, s') \<Rightarrow> forEach f xs s')"

definition getElementById :: "document \<Rightarrow> string \<Rightarrow> dnode option" where
  "getElementById d i = find (\<lambda>n. ident n = i) (allElements d)"

definition injectCSS :: "validator \<Rightarrow> validator" where
  "injectCSS s =
     (if getElementById (document s) ''wa11y-style'' \<noteq> None then s
      else
        (let u = uiClasses s;
             sheet = Element (nextElem s) ''style'' ''wa11y-style'' []
                       (StyleMarkup [OUTLINE u, BADGE u, POPUP u, CLOSE u]
                          (case customCSS (theConfig s) of Some css \<Rightarrow> css | None \<Rightarrow> []))
                       None [];
             h = head (document s)
         in emit (AppendChild (nid h) (nextElem s))
              (s\<lparr> document := (document s)\<lparr> head := setChildNodes (childNodes h @ [sheet]) h \<rparr>,
                  nextElem := Suc (nextElem s) \<rparr>)))"

section \<open>Violation mapper\<close>

definition nodeInWidget :: "host \<Rightarrow> document \<Rightarrow> elem \<Rightarrow> axe_node \<Rightarrow> exn + bool" where
  "nodeInWidget H d w node =
     (case target node of
        None \<Rightarrow> Inr False
      | Some t \<Rightarrow>
          (case querySelector H d (join '' '' t) of
             Inl e \<Rightarrow> Inl e
           | Inr None \<Rightarrow> Inr False
           | Inr (Some element) \<Rightarrow> Inr (contains d w element)))"

fun someNode :: "host \<Rightarrow> document \<Rightarrow> elem \<Rightarrow> axe_node list \<Rightarrow> exn + bool" where
  "someNode H d w [] = Inr False"
| "someNode H d w (node # ns) =
     (case nodeInWidget H d w node of
        Inl e \<Rightarrow> Inl e
      | Inr True \<Rightarrow> Inr True
      | Inr False \<Rightarrow> someNode H d w ns)"

fun widgetViolations ::
  "host \<Rightarrow> document \<Rightarrow> elem \<Rightarrow> axe_violation list \<Rightarrow> exn + axe_violation list" where
  "widgetViolations H d w [] = Inr []"
| "widgetViolations H d w (v # vs) =
     (case someNode H d w (nodes v) of
        Inl e \<Rightarrow> Inl e
      | Inr keep \<Rightarrow>
          (case widgetViolations H d w vs of
             Inl e \<Rightarrow> Inl e
           | Inr r \<Rightarrow> Inr (if keep then v # r else r)))"

section \<open>Audit runner\<close>

definition axeOptions :: "validator \<Rightarrow> axe_run_options" where
  "axeOptions s =
     (let c = theConfig s in
      if (case axeRules c of Some r \<Rightarrow> length (arrays s r) > 0 | None \<Rightarrow> False)
      then \<lparr> runOnly = Some \<lparr> run_type = Rule,
               run_values = (case axeRules c of Some r \<Rightarrow> arrays s r | None \<Rightarrow> []) \<rparr> \<rparr>
      else if (case axeTags c of Some r \<Rightarrow> length (arrays s r) > 0 | None \<Rightarrow> False)
      then \<lparr> runOnly = Some \<lparr> run_type = Tag,
               run_values = (case axeTags c of Some r \<Rightarrow> arrays s r | None \<Rightarrow> []) \<rparr> \<rparr>
      else \<lparr> runOnly = None \<rparr>)"

definition debugLogging :: "validator \<Rightarrow> bool" where
  "debugLogging s = (enableDebugLogging (theConfig s) = Some True)"

fun renderEach ::
  "host \<Rightarrow> axe_violation list \<Rightarrow> elem list \<Rightarrow> validator \<Rightarrow> exn option \<times> validator" where
  "renderEach H violations [] s = (None, s)"
| "renderEach H violations (w # ws) s =
     (case widgetViolations H (document s) w violations of
        Inl e \<Rightarrow> (Some e, s)
      | Inr widgetViols \<Rightarrow>
          (case callRenderWidgetUI H w widgetViols s of
             (Some e, s') \<Rightarrow> (Some e, s')
           | (None, s') \<Rightarrow> renderEach H violations ws s'))"

text \<open>
  The body of the \<open>try\<close> block: what it raised, if anything, and the state it left.
  The k-th invocation of the engine is answered by \<open>axeRun H k\<close>.
\<close>

definition tryAudit :: "host \<Rightarrow> elem list \<Rightarrow> validator \<Rightarrow> exn option \<times> validator" where
  "tryAudit H widgets s =
     (let s1 = emit (AxeRunCall (axeOptions s)) s in
      case axeRun H (axeCalls s) of
        Inl err \<Rightarrow> (Some err, s1)
      | Inr violations \<Rightarrow>
          renderEach H violations widgets (if debugLogging s1 then emit ConsoleLog s1 else s1))"

text \<open>
  \<open>attempts <= maxRetries\<close> and \<open>attempts > maxRetries\<close>; with \<open>maxRetries\<close> undefined both
  comparisons are false in JavaScript.
\<close>

definition withinRetries :: "nat \<Rightarrow> validator \<Rightarrow> bool" where
  "withinRetries attempts s =
     (case maxRetries (theConfig s) of Some m \<Rightarrow> attempts \<le> m | None \<Rightarrow> False)"

definition beyondRetries :: "nat \<Rightarrow> validator \<Rightarrow> bool" where
  "beyondRetries attempts s =
     (case maxRetries (theConfig s) of Some m \<Rightarrow> attempts > m | None \<Rightarrow> False)"

text \<open>
  The branch of the \<open>catch\<close> block taken after the last attempt; what it raises is not
  caught.
\<close>

definition giveUp :: "host \<Rightarrow> elem list \<Rightarrow> validator \<Rightarrow> exn option \<times> validator" where
  "giveUp H widgets s =
     forEach (\<lambda>w. callRenderWidgetUI H w []) widgets
       (if debugLogging s then emit ConsoleWarn s else s)"

text \<open>
  What the operations of the renderer and of one audit attempt leave alone: the
  configuration and the object store, the class names, the timers, the observer and the
  number of audits entered.
\<close>

definition sameSetup :: "validator \<Rightarrow> validator \<Rightarrow> bool" where
  "sameSetup s s' =
     (config s' = config s \<and> objects s' = objects s \<and> arrays s' = arrays s
      \<and> nextRef s' = nextRef s \<and> uiClasses s' = uiClasses s
      \<and> recheckTimeout s' = recheckTimeout s \<and> mutationObserver s' = mutationObserver s
      \<and> timers s' = timers s \<and> clock s' = clock s \<and> nextTimer s' = nextTimer s
      \<and> audits s' = audits s)"

lemma sameSetup_refl: "sameSetup s s"
  by (simp add: sameSetup_def)

lemma sameSetup_trans: "sameSetup s s1 \<Longrightarrow> sameSetup s1 s2 \<Longrightarrow> sameSetup s s2"
  by (simp add: sameSetup_def)

lemma sameSetup_emit: "e \<noteq> RecheckAllEntered \<Longrightarrow> sameSetup s (emit e s)"
  by (simp add: sameSetup_def emit_def audits_def)

lemma sameSetup_setWidgetState: "sameSetup s (setWidgetState w p s)"
  by (simp add: sameSetup_def setWidgetState_def Let_def audits_def)

lemma sameSetup_classListRemove: "sameSetup s (classListRemove w c s)"
  by (simp add: sameSetup_def classListRemove_def emit_def audits_def)

lemma sameSetup_classListAdd: "sameSetup s (classListAdd w c s)"
  by (simp add: sameSetup_def classListAdd_def emit_def audits_def)

lemma sameSetup_appendChild: "sameSetup s (appendChild w k s)"
  by (simp add: sameSetup_def appendChild_def emit_def audits_def)

lemma sameSetup_removeOverlayChildren: "sameSetup s (removeOverlayChildren w s)"
  by (simp add: sameSetup_def removeOverlayChildren_def Let_def audits_def filter_map comp_def)

lemma sameSetup_setupUIInteractions: "sameSetup s (setupUIInteractions b p w s)"
  by (simp add: sameSetup_def setupUIInteractions_def emit_def audits_def)

lemma sameSetup_createBadge: "sameSetup s (snd (createBadge n s))"
  by (simp add: sameSetup_def createBadge_def audits_def)

lemma sameSetup_createPopup: "sameSetup s (snd (createPopup vs s))"
  by (simp add: sameSetup_def createPopup_def audits_def)

lemma sameSetup_clearWidgetUI: "sameSetup s (clearWidgetUI w s)"
  unfolding clearWidgetUI_def
  by (blast intro: sameSetup_trans sameSetup_setWidgetState sameSetup_removeOverlayChildren
      sameSetup_classListRemove)

lemma sameSetup_renderWidgetUI: "sameSetup s (renderWidgetUI w vs s)"
proof -
  let ?s1 = "clearWidgetUI w s"
  let ?s2 = "classListAdd w (OUTLINE (uiClasses ?s1)) ?s1"
  let ?s3 = "snd (createBadge (length vs) ?s2)"
  let ?s4 = "snd (createPopup vs ?s3)"
  let ?s5 = "appendChild w (fst (createBadge (length vs) ?s2)) ?s4"
  let ?s6 = "appendChild w (fst (createPopup vs ?s3)) ?s5"
  let ?s7 = "setupUIInteractions (fst (createBadge (length vs) ?s2)) (fst (createPopup vs ?s3)) w ?s6"
  have 1: "sameSetup s ?s1" by (rule sameSetup_clearWidgetUI)
  have 2: "sameSetup s ?s2" by (rule sameSetup_trans[OF 1 sameSetup_classListAdd])
  have 3: "sameSetup s ?s3" by (rule sameSetup_trans[OF 2 sameSetup_createBadge])
  have 4: "sameSetup s ?s4" by (rule sameSetup_trans[OF 3 sameSetup_createPopup])
  have 5: "sameSetup s ?s5" by (rule sameSetup_trans[OF 4 sameSetup_appendChild])
  have 6: "sameSetup s ?s6" by (rule sameSetup_trans[OF 5 sameSetup_appendChild])
  have 7: "sameSetup s ?s7" by (rule sameSetup_trans[OF 6 sameSetup_setupUIInteractions])
  have 8: "sameSetup s (setWidgetState w
              \<lparr> lastViolationCount_opt = Some (int (length vs)), hasUI_opt = Some True \<rparr> ?s7)"
    by (rule sameSetup_trans[OF 7 sameSetup_setWidgetState])
  show ?thesis
    using 1 8 by (simp add: renderWidgetUI_def Let_def split_def sameSetup_refl)
qed

lemma sameSetup_attachOverlay: "sameSetup s (attachOverlay w vs s)"
proof -
  let ?s1 = "clearWidgetUI w s"
  let ?s2 = "classListAdd w (OUTLINE (uiClasses ?s1)) ?s1"
  let ?s3 = "snd (createBadge (length vs) ?s2)"
  let ?s4 = "snd (createPopup vs ?s3)"
  let ?s5 = "appendChild w (fst (createBadge (length vs) ?s2)) ?s4"
  let ?s6 = "appendChild w (fst (createPopup vs ?s3)) ?s5"
  have 1: "sameSetup s ?s1" by (rule sameSetup_clearWidgetUI)
  have 2: "sameSetup s ?s2" by (rule sameSetup_trans[OF 1 sameSetup_classListAdd])
  have 3: "sameSetup s ?s3" by (rule sameSetup_trans[OF 2 sameSetup_createBadge])
  have 4: "sameSetup s ?s4" by (rule sameSetup_trans[OF 3 sameSetup_createPopup])
  have 5: "sameSetup s ?s5" by (rule sameSetup_trans[OF 4 sameSetup_appendChild])
  have 6: "sameSetup s ?s6" by (rule sameSetup_trans[OF 5 sameSetup_appendChild])
  then show ?thesis by (simp add: attachOverlay_def Let_def split_def)
qed

lemma sameSetup_callClearWidgetUI: "sameSetup s (snd (callClearWidgetUI H w s))"
  by (auto simp: callClearWidgetUI_def clearRejected_def sameSetup_refl sameSetup_clearWidgetUI
      sameSetup_classListRemove split: option.splits)

lemma sameSetup_callRenderWidgetUI: "sameSetup s (snd (callRenderWidgetUI H w vs s))"
  by (auto simp: callRenderWidgetUI_def renderRejected_def clearRejected_def Let_def
      sameSetup_refl sameSetup_renderWidgetUI sameSetup_classListRemove sameSetup_attachOverlay
      split: option.splits if_splits)

lemma sameSetup_forEach:
  "(\<And>x t. sameSetup t (snd (f x t))) \<Longrightarrow> sameSetup s (snd (forEach f xs s))"
proof (induction xs arbitrary: s)
  case Nil
  then show ?case by (simp add: sameSetup_refl)
next
  case (Cons x xs)
  obtain r t where f: "f x s = (r, t)" by (metis surj_pair)
  have a: "sameSetup s t" using Cons.prems[of s x] f by simp
  show ?case
  proof (cases r)
    case None
    have "sameSetup t (snd (forEach f xs t))" by (rule Cons.IH) (rule Cons.prems)
    with a f None show ?thesis by (simp add: sameSetup_trans)
  next
    case (Some e)
    with a f show ?thesis by simp
  qed
qed

lemma sameSetup_fold:
  "(\<And>x t. sameSetup t (f x t)) \<Longrightarrow> sameSetup s (fold f xs s)"
proof (induction xs arbitrary: s)
  case Nil
  then show ?case by (simp add: sameSetup_refl)
next
  case (Cons x xs)
  have "sameSetup s (f x s)" by (rule Cons.prems)
  moreover have "sameSetup (f x s) (fold f xs (f x s))" by (rule Cons.IH) (rule Cons.prems)
  ultimately show ?case by (simp add: sameSetup_trans)
qed

lemma sameSetup_renderEach: "sameSetup s (snd (renderEach H vs ws s))"
proof (induction ws arbitrary: s)
  case Nil
  then show ?case by (simp add: sameSetup_refl)
next
  case (Cons w ws)
  show ?case
  proof (cases "widgetViolations H (document s) w vs")
    case (Inl e)
    then show ?thesis by (simp add: sameSetup_refl)
  next
    case (Inr r)
    obtain x t where c: "callRenderWidgetUI H w r s = (x, t)" by (metis surj_pair)
    have a: "sameSetup s t" using sameSetup_callRenderWidgetUI[of s H w r] c by simp
    show ?thesis
    proof (cases x)
      case None
      with Inr c sameSetup_trans[OF a Cons.IH] show ?thesis by simp
    next
      case (Some e)
      with Inr c a show ?thesis by simp
    qed
  qed
qed

lemma sameSetup_tryAudit: "sameSetup s (snd (tryAudit H ws s))"
proof (cases "axeRun H (axeCalls s)")
  case (Inl e)
  then show ?thesis by (simp add: tryAudit_def Let_def sameSetup_emit)
next
  case (Inr vs)
  let ?s1 = "emit (AxeRunCall (axeOptions s)) s"
  let ?s2 = "if debugLogging ?s1 then emit ConsoleLog ?s1 else ?s1"
  have a: "sameSetup s ?s1" by (simp add: sameSetup_emit)
  have b: "sameSetup ?s1 (emit ConsoleLog ?s1)" by (simp add: sameSetup_emit)
  have "sameSetup s ?s2"
    using a sameSetup_trans[OF a b] by simp
  then have "sameSetup s (snd (renderEach H vs ws ?s2))"
    by (rule sameSetup_trans) (rule sameSetup_renderEach)
  with Inr show ?thesis by (simp add: tryAudit_def Let_def)
qed

lemma sameSetup_giveUp: "sameSetup s (snd (giveUp H ws s))"
proof -
  have "sameSetup s (if debugLogging s then emit ConsoleWarn s else s)"
    by (simp add: sameSetup_emit sameSetup_refl)
  then show ?thesis
    unfolding giveUp_def
    by (rule sameSetup_trans) (rule sameSetup_forEach, rule sameSetup_callRenderWidgetUI)
qed

lemma sameSetup_theConfig: "sameSetup s s' \<Longrightarrow> theConfig s' = theConfig s"
  by (simp add: sameSetup_def theConfig_def)

lemma sameSetup_withinRetries: "sameSetup s s' \<Longrightarrow> withinRetries a s' = withinRetries a s"
  by (simp add: withinRetries_def sameSetup_theConfig)

lemma sameSetup_beyondRetries: "sameSetup s s' \<Longrightarrow> beyondRetries a s' = beyondRetries a s"
  by (simp add: beyondRetries_def sameSetup_theConfig)

definition retriesLeft :: "nat \<Rightarrow> validator \<Rightarrow> nat" where
  "retriesLeft attempts s =
     (case maxRetries (theConfig s) of Some m \<Rightarrow> Suc m - attempts | None \<Rightarrow> 0)"

lemma retriesLeft_decreases:
  "withinRetries a s \<Longrightarrow> sameSetup s s' \<Longrightarrow> retriesLeft (Suc a) s' < retriesLeft a s"
  by (auto simp: retriesLeft_def withinRetries_def sameSetup_theConfig split: option.splits)

lemma tryAudit_then_giveUp:
  "(x, y) = tryAudit H ws s \<Longrightarrow> (x', y') = giveUp H ws y \<Longrightarrow> sameSetup s y'"
  by (metis sameSetup_trans sameSetup_tryAudit sameSetup_giveUp snd_conv)

lemma tryAudit_then_emit: "(x, y) = tryAudit H ws s \<Longrightarrow> sameSetup s (emit (Pause n) y)"
proof -
  assume "(x, y) = tryAudit H ws s"
  then have y: "y = snd (tryAudit H ws s)" by (metis snd_conv)
  have "sameSetup y (emit (Pause n) y)" by (simp add: sameSetup_emit)
  with sameSetup_tryAudit[of s H ws] show ?thesis
    unfolding y by (rule sameSetup_trans)
qed

text \<open>
  The \<open>while\<close> loop: what escapes it, if anything, and the state it leaves.
\<close>

function auditLoop ::
  "host \<Rightarrow> elem list \<Rightarrow> nat \<Rightarrow> validator \<Rightarrow> exn option \<times> validator" where
  "auditLoop H widgets attempts s =
     (if withinRetries attempts s then
        (case tryAudit H widgets s of
           (None, s') \<Rightarrow> (None, s')
         | (Some err, s') \<Rightarrow>
             if beyondRetries (Suc attempts) s'
             then (case giveUp H widgets s' of
                     (Some e, s'') \<Rightarrow> (Some e, s'')
                   | (None, s'') \<Rightarrow> auditLoop H widgets (Suc attempts) s'')
             else auditLoop H widgets (Suc attempts) (emit (Pause 50) s'))
      else (None, s))"
  by pat_completeness auto
termination
  apply (relation "measure (\<lambda>(H, widgets, attempts, s). retriesLeft attempts s)")
    apply simp
   apply (simp add: retriesLeft_decreases tryAudit_then_giveUp)
  apply (simp add: retriesLeft_decreases tryAudit_then_emit)
  done

text \<open>
  \<open>recheckAll\<close> is asynchronous: what it raises rejects the promise it returns. The result
  is that rejection, if any, and the state left. An audit runs without interleaving: nothing
  else happens on the page while the engine or the backoff is awaited.
\<close>

definition recheckAll :: "host \<Rightarrow> validator \<Rightarrow> exn option \<times> validator" where
  "recheckAll H s =
     (let s1 = injectCSS (emit RecheckAllEntered s) in
      case getAllWidgets H s1 of
        Inl e \<Rightarrow> (Some e, s1)
      | Inr widgets \<Rightarrow>
          if widgets = [] then (None, s1)
          else
            (case forEach (callClearWidgetUI H) widgets s1 of
               (Some e, s2) \<Rightarrow> (Some e, s2)
             | (None, s2) \<Rightarrow> auditLoop H widgets 0 s2))"

section \<open>Public operations\<close>

definition clearTimeout :: "nat \<Rightarrow> validator \<Rightarrow> validator" where
  "clearTimeout t s =
     emit (ClearTimeout t) (s\<lparr> timers := filter (\<lambda>(i, due). i \<noteq> t) (timers s) \<rparr>)"

definition setTimeout :: "nat \<Rightarrow> validator \<Rightarrow> nat \<times> validator" where
  "setTimeout delay s =
     (nextTimer s,
      emit (SetTimeout (nextTimer s) delay)
        (s\<lparr> timers := timers s @ [(nextTimer s, clock s + delay)],
            nextTimer := Suc (nextTimer s) \<rparr>))"

text \<open>\<open>delay || this.config.debounceDelay\<close>: a missing or zero delay falls back.\<close>

definition effectiveDelay :: "nat option \<Rightarrow> validator \<Rightarrow> nat" where
  "effectiveDelay delay s =
     (case delay of
        Some d \<Rightarrow> if d \<noteq> 0 then d
                  else (case debounceDelay (theConfig s) of Some c \<Rightarrow> c | None \<Rightarrow> 0)
      | None \<Rightarrow> (case debounceDelay (theConfig s) of Some c \<Rightarrow> c | None \<Rightarrow> 0))"

definition debounceRecheck :: "nat option \<Rightarrow> validator \<Rightarrow> validator" where
  "debounceRecheck delay s =
     (let s1 = (case recheckTimeout s of Some t \<Rightarrow> clearTimeout t s | None \<Rightarrow> s);
          (t', s2) = setTimeout (effectiveDelay delay s1) s1
      in s2\<lparr> recheckTimeout := Some t' \<rparr>)"

definition setupMutationObserver :: "validator \<Rightarrow> validator" where
  "setupMutationObserver s =
     (if mutationObserver s then s
      else emit ObserverObserve (s\<lparr> mutationObserver := True \<rparr>))"

definition startWatching :: "validator \<Rightarrow> validator" where
  "startWatching s =
     (if enableMutationObserver (theConfig s) = Some True then setupMutationObserver s else s)"

definition stopWatching :: "validator \<Rightarrow> validator" where
  "stopWatching s =
     (if mutationObserver s
      then emit ObserverDisconnect (s\<lparr> mutationObserver := False \<rparr>)
      else s)"

definition clearAll :: "host \<Rightarrow> validator \<Rightarrow> exn option \<times> validator" where
  "clearAll H s =
     (case getAllWidgets H s of
        Inl e \<Rightarrow> (Some e, s)
      | Inr widgets \<Rightarrow> forEach (callClearWidgetUI H) widgets s)"

definition addSelectors :: "host \<Rightarrow> string list \<Rightarrow> validator \<Rightarrow> validator" where
  "addSelectors H selectors s =
     (let r = widgetSelectors (theConfig s) in
      snd (recheckAll H (s\<lparr> arrays := (arrays s)(r := arrays s r @ selectors) \<rparr>)))"

definition removeSelectors :: "host \<Rightarrow> string list \<Rightarrow> validator \<Rightarrow> validator" where
  "removeSelectors H selectors s =
     (let kept = filter (\<lambda>x. x \<notin> set selectors) (arrays s (widgetSelectors (theConfig s)));
          r = nextRef s
      in snd (recheckAll H
           (s\<lparr> arrays := (arrays s)(r := kept),
               objects := (objects s)(config s := (theConfig s)\<lparr> widgetSelectors := r \<rparr>),
               nextRef := Suc r \<rparr>)))"

definition DEFAULT_axeRules :: ref where
  "DEFAULT_axeRules = 0"

definition DEFAULT_cmsEvents :: ref where
  "DEFAULT_cmsEvents = 1"

text \<open>
  The object given to \<open>mergeConfig\<close>: \<open>widgetSelectors\<close> is required, every other key may
  be absent or \<open>undefined\<close>. A key of \<open>DEFAULT_CONFIG\<close> takes its default when the key is
  absent, and stays \<open>undefined\<close> when it is present with that value; \<open>axeRules\<close> and
  \<open>cmsEvents\<close> are then set again, to the given array or else to the default one.
\<close>

record user_config =
  given_widgetSelectors :: ref
  given_axeRules :: "ref key"
  given_axeTags :: "ref key"
  given_debounceDelay :: "nat key"
  given_enableMutationObserver :: "bool key"
  given_maxRetries :: "nat key"
  given_uiClasses :: "partial_ui_classes key"
  given_cmsEvents :: "ref key"
  given_customCSS :: "string key"
  given_enableDebugLogging :: "bool key"

definition orDefault :: "'a key \<Rightarrow> 'a \<Rightarrow> 'a option" where
  "orDefault k d = (case k of Absent \<Rightarrow> Some d | Undefined \<Rightarrow> None | Given x \<Rightarrow> Some x)"

definition mergeConfig :: "host \<Rightarrow> user_config \<Rightarrow> validator_config" where
  "mergeConfig H userConfig =
     (let merged = \<lparr>
            widgetSelectors = given_widgetSelectors userConfig,
            axeRules = Some (case keyValue (given_axeRules userConfig) of
                               Some r \<Rightarrow> r | None \<Rightarrow> DEFAULT_axeRules),
            axeTags = keyValue (given_axeTags userConfig),
            debounceDelay = orDefault (given_debounceDelay userConfig) 300,
            enableMutationObserver = orDefault (given_enableMutationObserver userConfig) True,
            maxRetries = orDefault (given_maxRetries userConfig) 1,
            cfg_uiClasses = keyValue (given_uiClasses userConfig),
            cmsEvents = Some (case keyValue (given_cmsEvents userConfig) of
                                Some r \<Rightarrow> r | None \<Rightarrow> DEFAULT_cmsEvents),
            customCSS = keyValue (given_customCSS userConfig),
            enableDebugLogging = keyValue (given_enableDebugLogging userConfig) \<rparr>
      in if enableDebugLogging merged = None
         then merged\<lparr> enableDebugLogging :=
                Some (hostname H = ''localhost'' \<or> sublist ''dev'' (hostname H)) \<rparr>
         else merged)"

text \<open>
  \<open>{ ...defaults, ...(this.config.uiClasses || {}) }\<close>. A class name that is present with
  the value \<open>undefined\<close> is used as the string \<open>undefined\<close> by the class list, by the
  \<open>className\<close> property and by the templates of the selectors and the markup.
\<close>

definition className :: "string key \<Rightarrow> string \<Rightarrow> string" where
  "className k d = (case k of Absent \<Rightarrow> d | Undefined \<Rightarrow> ''undefined'' | Given c \<Rightarrow> c)"

definition createUIClasses :: "validator \<Rightarrow> ui_classes" where
  "createUIClasses s =
     (case cfg_uiClasses (theConfig s) of
        None \<Rightarrow> \<lparr> OUTLINE = ''wa11y-outline'', BADGE = ''wa11y-badge'',
                  POPUP = ''wa11y-popup'', CLOSE = ''wa11y-close'' \<rparr>
      | Some p \<Rightarrow>
          \<lparr> OUTLINE = className (OUTLINE_opt p) ''wa11y-outline'',
            BADGE = className (BADGE_opt p) ''wa11y-badge'',
            POPUP = className (POPUP_opt p) ''wa11y-popup'',
            CLOSE = className (CLOSE_opt p) ''wa11y-close'' \<rparr>)"

text \<open>
  A \<open>Partial<AccessibilityValidatorConfig>\<close>: every key may be absent or \<open>undefined\<close>; the
  selector list is left as it is or replaced by an array. In \<open>{ ...this.config, ...newConfig }\<close>
  a key of \<open>newConfig\<close> that is present, also with the value \<open>undefined\<close>, replaces the key
  of \<open>this.config\<close>. Every key of \<open>DEFAULT_CONFIG\<close> is present in \<open>this.config\<close>, which is
  always a result of \<open>mergeConfig\<close>, and so in the spread.
\<close>

record partial_config =
  new_widgetSelectors :: "ref option"
  new_axeRules :: "ref key"
  new_axeTags :: "ref key"
  new_debounceDelay :: "nat key"
  new_enableMutationObserver :: "bool key"
  new_maxRetries :: "nat key"
  new_uiClasses :: "partial_ui_classes key"
  new_cmsEvents :: "ref key"
  new_customCSS :: "string key"
  new_enableDebugLogging :: "bool key"

definition spread :: "'a option \<Rightarrow> 'a key \<Rightarrow> 'a key" where
  "spread old new =
     (case new of
        Absent \<Rightarrow> (case old of Some x \<Rightarrow> Given x | None \<Rightarrow> Undefined)
      | Undefined \<Rightarrow> Undefined
      | Given x \<Rightarrow> Given x)"

definition spreadConfig :: "validator_config \<Rightarrow> partial_config \<Rightarrow> user_config" where
  "spreadConfig c n =
     \<lparr> given_widgetSelectors =
         (case new_widgetSelectors n of Some r \<Rightarrow> r | None \<Rightarrow> widgetSelectors c),
       given_axeRules = spread (axeRules c) (new_axeRules n),
       given_axeTags = spread (axeTags c) (new_axeTags n),
       given_debounceDelay = spread (debounceDelay c) (new_debounceDelay n),
       given_enableMutationObserver =
         spread (enableMutationObserver c) (new_enableMutationObserver n),
       given_maxRetries = spread (maxRetries c) (new_maxRetries n),
       given_uiClasses = spread (cfg_uiClasses c) (new_uiClasses n),
       given_cmsEvents = spread (cmsEvents c) (new_cmsEvents n),
       given_customCSS = spread (customCSS c) (new_customCSS n),
       given_enableDebugLogging = spread (enableDebugLogging c) (new_enableDebugLogging n) \<rparr>"

definition updateConfig :: "host \<Rightarrow> partial_config \<Rightarrow> validator \<Rightarrow> validator" where
  "updateConfig H newConfig s =
     (let merged = mergeConfig H (spreadConfig (theConfig s) newConfig);
          r = nextRef s;
          s1 = s\<lparr> objects := (objects s)(r := merged), config := r, nextRef := Suc r \<rparr>;
          s2 = (case new_uiClasses newConfig of
                  Given p \<Rightarrow> s1\<lparr> uiClasses := createUIClasses s1 \<rparr>
                | _ \<Rightarrow> s1)
      in snd (recheckAll H s2))"

definition getWidgetStates :: "host \<Rightarrow> validator \<Rightarrow> exn + (elem \<times> widget_state) list" where
  "getWidgetStates H s =
     (case getAllWidgets H s of
        Inl e \<Rightarrow> Inl e
      | Inr widgets \<Rightarrow> Inr (map (\<lambda>w. (w, getWidgetState s w)) widgets))"

text \<open>
  \<open>{ ...this.config }\<close>: a new object with the fields of the configuration; the arrays in
  those fields are the same references.
\<close>

definition getConfig :: "validator \<Rightarrow> ref \<times> validator" where
  "getConfig s =
     (nextRef s,
      s\<lparr> objects := (objects s)(nextRef s := theConfig s), nextRef := Suc (nextRef s) \<rparr>)"

fun removeElement :: "elem \<Rightarrow> dnode \<Rightarrow> dnode" where
  "removeElement e (Element n t i c m h ks) =
     Element n t i c m h (map (removeElement e) (filter (\<lambda>k. nid k \<noteq> e) ks))"

definition detachHandler :: "dnode \<Rightarrow> validator \<Rightarrow> validator" where
  "detachHandler popup s =
     (case outsideClickHandler popup of
        Some h \<Rightarrow> emit (RemoveClickListener h)
                    (s\<lparr> clickListeners := removeAll h (clickListeners s) \<rparr>)
      | None \<Rightarrow> s)"

definition removeStyle :: "validator \<Rightarrow> validator" where
  "removeStyle s =
     (case getElementById (document s) ''wa11y-style'' of
        Some styleElement \<Rightarrow>
          emit (RemoveNode (nid styleElement))
            (s\<lparr> document := \<lparr> head = removeElement (nid styleElement) (head (document s)),
                               body = removeElement (nid styleElement) (body (document s)) \<rparr> \<rparr>)
      | None \<Rightarrow> s)"

definition destroy :: "host \<Rightarrow> validator \<Rightarrow> exn option \<times> validator" where
  "destroy H s =
     (let s1 = stopWatching s;
          s2 = (case recheckTimeout s1 of Some t \<Rightarrow> clearTimeout t s1 | None \<Rightarrow> s1)
      in case clearAll H s2 of
           (Some e, s3) \<Rightarrow> (Some e, s3)
         | (None, s3) \<Rightarrow>
             (case querySelectorAll H (document s3) (popupSelector (uiClasses s3)) of
                Inl e \<Rightarrow> (Some e, s3)
              | Inr found \<Rightarrow>
                  (let popups = filter (\<lambda>n. nid n \<in> set found) (allElements (document s3));
                       s4 = fold detachHandler popups s3
                   in (None, removeStyle s4))))"

section \<open>The caller\<close>

text \<open>
  What a caller can do with an object it holds: assign top-level fields of a configuration
  object, and push onto an array.
\<close>

definition assignField ::
  "ref \<Rightarrow> (validator_config \<Rightarrow> validator_config) \<Rightarrow> validator \<Rightarrow> validator" where
  "assignField r f s = s\<lparr> objects := (objects s)(r := f (objects s r)) \<rparr>"

definition arrayPush :: "ref \<Rightarrow> string list \<Rightarrow> validator \<Rightarrow> validator" where
  "arrayPush r xs s = s\<lparr> arrays := (arrays s)(r := arrays s r @ xs) \<rparr>"

section \<open>Timers and runs\<close>

text \<open>
  Time passes: the timers that are due are taken off the pending list and their callback,
  \<open>() => this.recheckAll()\<close>, runs once for each.
\<close>

definition advance :: "host \<Rightarrow> nat \<Rightarrow> validator \<Rightarrow> validator" where
  "advance H k s =
     (let now = clock s + k;
          due = filter (\<lambda>(i, t). t \<le> now) (timers s);
          s1 = s\<lparr> clock := now, timers := filter (\<lambda>(i, t). \<not> t \<le> now) (timers s) \<rparr>
      in fold (\<lambda>timer st. snd (recheckAll H st)) due s1)"

text \<open>
  What can happen to a validator: a call of a public operation (the event listeners and the
  mutation observer of the source only call these), the passing of time, and the page or the
  caller editing the document or an array they hold.
\<close>

datatype action =
    RecheckAll
  | DebounceRecheck "nat option"
  | StartWatching
  | StopWatching
  | ClearAll
  | AddSelectors "string list"
  | RemoveSelectors "string list"
  | UpdateConfig partial_config
  | GetConfig
  | Destroy
  | Advance nat
  | PageEdit "document \<Rightarrow> document"
  | ArrayEdit ref "string list"

fun step :: "host \<Rightarrow> action \<Rightarrow> validator \<Rightarrow> validator" where
  "step H RecheckAll s = snd (recheckAll H s)"
| "step H (DebounceRecheck delay) s = debounceRecheck delay s"
| "step H StartWatching s = startWatching s"
| "step H StopWatching s = stopWatching s"
| "step H ClearAll s = snd (clearAll H s)"
| "step H (AddSelectors selectors) s = addSelectors H selectors s"
| "step H (RemoveSelectors selectors) s = removeSelectors H selectors s"
| "step H (UpdateConfig newConfig) s = updateConfig H newConfig s"
| "step H GetConfig s = snd (getConfig s)"
| "step H Destroy s = snd (destroy H s)"
| "step H (Advance k) s = advance H k s"
| "step H (PageEdit f) s = s\<lparr> document := f (document s) \<rparr>"
| "step H (ArrayEdit r xs) s = s\<lparr> arrays := (arrays s)(r := xs) \<rparr>"

definition run :: "host \<Rightarrow> action list \<Rightarrow> validator \<Rightarrow> validator" where
  "run H acts s = fold (step H) acts s"

text \<open>
  The state the field initialisers of the class leave: an empty widget cache, no timer
  handle, no observer, and no timer of this validator pending.
\<close>

definition constructed :: "validator \<Rightarrow> bool" where
  "constructed s =
     (widgetCache s = Map.empty \<and> recheckTimeout s = None \<and> \<not> mutationObserver s
      \<and> timers s = [])"

section \<open>An example page\<close>

text \<open>
  A small host and page for the concrete instances below. The selector engine of this host
  accepts a comma-separated list of parts, each a class selector \<open>.c\<close> or a tag name, with
  \<open>c\<close> and the tag name plain names, and each possibly behind \<open>:scope > \<close>; like every
  selector engine it rejects the empty string. In a lookup from the document an element
  matches the list when it matches one of the parts without \<open>:scope\<close>. Its rule engine
  always fails unless replaced. The page holds two \<open>.card-video\<close> widgets, the first with an
  image, the second with a link.
\<close>

fun splitComma :: "string \<Rightarrow> string list" where
  "splitComma [] = [[]]"
| "splitComma (c # cs) =
     (if c = CHR '','' then [] # splitComma cs
      else (case splitComma cs of [] \<Rightarrow> [[c]] | p # ps \<Rightarrow> (c # p) # ps))"

definition trim :: "string \<Rightarrow> string" where
  "trim p = rev (dropWhile (\<lambda>c. c = CHR '' '') (rev (dropWhile (\<lambda>c. c = CHR '' '') p)))"

definition stripScope :: "string \<Rightarrow> string" where
  "stripScope p = (if take 9 p = '':scope > '' then drop 9 p else p)"

definition simpleValid :: "string \<Rightarrow> bool" where
  "simpleValid p =
     (case stripScope p of
        [] \<Rightarrow> False
      | c # cs \<Rightarrow> if c = CHR ''.'' then plainName cs else plainName (c # cs))"

definition simpleMatches :: "string \<Rightarrow> dnode \<Rightarrow> bool" where
  "simpleMatches sel n =
     (case sel of
        [] \<Rightarrow> False
      | c # cs \<Rightarrow> if c = CHR ''.'' then cs \<in> set (classList n) else tagName n = sel)"

definition demoHost :: host where
  "demoHost =
     \<lparr> selectorValid = (\<lambda>sel. list_all (\<lambda>p. simpleValid (trim p)) (splitComma sel)),
       selectorMatches = (\<lambda>sel d e. list_ex (\<lambda>n. nid n = e \<and>
          list_ex (\<lambda>p. simpleMatches (trim p) n) (splitComma sel)) (allElements d)),
       axeRun = (\<lambda>k. Inl AxeFailure),
       hostname = ''localhost'' \<rparr>"

definition demoDocument :: document where
  "demoDocument =
     \<lparr> head = Element 0 ''head'' [] [] NoMarkup None [],
       body = Element 1 ''body'' [] [] NoMarkup None
         [Element 2 ''div'' [] [''card-video''] NoMarkup None
            [Element 3 ''img'' [] [] NoMarkup None []],
          Element 4 ''div'' [] [''card-video''] NoMarkup None
            [Element 5 ''a'' [] [] NoMarkup None []]] \<rparr>"

definition demoConfig :: validator_config where
  "demoConfig =
     \<lparr> widgetSelectors = 2, axeRules = Some 0, axeTags = None, debounceDelay = Some 300,
       enableMutationObserver = Some True, maxRetries = Some 1, cfg_uiClasses = None,
       cmsEvents = Some 1, customCSS = None, enableDebugLogging = Some False \<rparr>"

definition demoValidator :: validator where
  "demoValidator =
     \<lparr> config = 3, widgetCache = Map.empty, recheckTimeout = None, mutationObserver = False,
       uiClasses = \<lparr> OUTLINE = ''wa11y-outline'', BADGE = ''wa11y-badge'',
                     POPUP = ''wa11y-popup'', CLOSE = ''wa11y-close'' \<rparr>,
       objects = (\<lambda>r. demoConfig),
       arrays = (\<lambda>r. if r = 2 then [''.card-video'']
                      else if r = 1 then [''sf:contentModified'', ''sf:widgetUpdated'',
                        ''sf:propertyChanged'', ''sf:designerClosed'', ''sf:contentSaved'']
                      else []),
       nextRef = 4, document = demoDocument, nextElem = 6, clickListeners = [],
       timers = [], clock = 0, nextTimer = 1, effects = [] \<rparr>"

definition imageAlt :: axe_violation where
  "imageAlt =
     \<lparr> violation_id = ''image-alt'', impact = Some ''critical'',
       description = ''Ensures <img> elements have alternate text'',
       help_text = ''Images must have alternate text'',
       nodes = [\<lparr> target = Some [''img''] \<rparr>] \<rparr>"

definition demoAxeHost :: host where
  "demoAxeHost = demoHost\<lparr> axeRun := (\<lambda>k. Inr [imageAlt]) \<rparr>"

definition demoRulesValidator :: validator where
  "demoRulesValidator =
     demoValidator\<lparr>
       objects := (\<lambda>r. demoConfig\<lparr> axeRules := Some 4, axeTags := Some 5 \<rparr>),
       arrays := (\<lambda>r. if r = 4 then [''color-contrast'']
                      else if r = 5 then [''wcag2a'']
                      else arrays demoValidator r),
       nextRef := 6 \<rparr>"

definition linkName :: axe_violation where
  "linkName =
     \<lparr> violation_id = ''link-name'', impact = Some ''serious'',
       description = ''Ensures links have discernible text'',
       help_text = ''Links must have discernible text'',
       nodes = [\<lparr> target = Some [''a''] \<rparr>] \<rparr>"

text \<open>
  The page after an audit in which the engine reported the missing alternative text of the
  image: the first widget carries the outline, a badge and a popup, whose outside-click
  handler is registered on the document. The stale variant is the same page after the
  selector list was changed to a selector that matches nothing.
\<close>

definition demoRenderedDocument :: document where
  "demoRenderedDocument =
     \<lparr> head = Element 0 ''head'' [] [] NoMarkup None
         [Element 6 ''style'' ''wa11y-style'' []
            (StyleMarkup [''wa11y-outline'', ''wa11y-badge'', ''wa11y-popup'', ''wa11y-close''] [])
            None []],
       body = Element 1 ''body'' [] [] NoMarkup None
         [Element 2 ''div'' [] [''card-video'', ''wa11y-outline''] NoMarkup None
            [Element 3 ''img'' [] [] NoMarkup None [],
             Element 7 ''button'' [] [''wa11y-badge''] (BadgeMarkup 1 ''issue'') None [],
             Element 8 ''div'' [] [''wa11y-popup'']
               (PopupMarkup [(''[image-alt] critical'', ''Images must have alternate text'')])
               (Some 8) []],
          Element 4 ''div'' [] [''card-video''] NoMarkup None
            [Element 5 ''a'' [] [] NoMarkup None []]] \<rparr>"

definition demoRendered :: validator where
  "demoRendered =
     demoValidator\<lparr>
       widgetCache := [2 \<mapsto> \<lparr> lastViolationCount = 1, hasUI = True \<rparr>,
                       4 \<mapsto> \<lparr> lastViolationCount = 0, hasUI = False \<rparr>],
       document := demoRenderedDocument, nextElem := 9, clickListeners := [8] \<rparr>"

definition demoStale :: validator where
  "demoStale = demoRendered\<lparr> arrays := (arrays demoRendered)(2 := [''.gone'']) \<rparr>"

text \<open>
  The rendered page with an empty selector list; a violation with affected nodes in both
  widgets and one that resolves to no element; a violation with no live element at all.
\<close>

definition demoEmpty :: validator where
  "demoEmpty = demoRendered\<lparr> arrays := (arrays demoRendered)(2 := []) \<rparr>"

text \<open>
  The validator on the first page when it is configured with \<open>maxRetries: undefined\<close>, or
  with \<open>uiClasses: { OUTLINE: '' }\<close>; and the validator on the rendered page after
  \<open>updateConfig({ uiClasses: { BADGE: 'badge2' } })\<close> has replaced the configuration and the
  class names and is about to call \<open>recheckAll\<close>.
\<close>

definition demoNoRetries :: validator where
  "demoNoRetries = demoValidator\<lparr> objects := (\<lambda>r. demoConfig\<lparr> maxRetries := None \<rparr>) \<rparr>"

definition demoNoOutline :: validator where
  "demoNoOutline =
     demoValidator\<lparr>
       uiClasses := \<lparr> OUTLINE = [], BADGE = ''wa11y-badge'',
                      POPUP = ''wa11y-popup'', CLOSE = ''wa11y-close'' \<rparr>,
       objects := (\<lambda>r. demoConfig\<lparr> cfg_uiClasses := Some
          \<lparr> OUTLINE_opt = Given [], BADGE_opt = Absent, POPUP_opt = Absent,
            CLOSE_opt = Absent \<rparr> \<rparr>) \<rparr>"

definition demoRenamed :: validator where
  "demoRenamed =
     demoRendered\<lparr>
       uiClasses := \<lparr> OUTLINE = ''wa11y-outline'', BADGE = ''badge2'',
                      POPUP = ''wa11y-popup'', CLOSE = ''wa11y-close'' \<rparr>,
       objects := (\<lambda>r. demoConfig\<lparr> cfg_uiClasses := Some
          \<lparr> OUTLINE_opt = Absent, BADGE_opt = Given ''badge2'', POPUP_opt = Absent,
            CLOSE_opt = Absent \<rparr> \<rparr>) \<rparr>"

definition childrenOf :: "validator \<Rightarrow> elem \<Rightarrow> elem list" where
  "childrenOf s w =
     concat (map (\<lambda>n. map nid (childNodes n))
               (filter (\<lambda>n. nid n = w) (allElements (document s))))"

definition twoCards :: axe_violation where
  "twoCards =
     \<lparr> violation_id = ''color-contrast'', impact = Some ''serious'',
       description = ''Ensures the contrast between foreground and background colors'',
       help_text = ''Elements must meet minimum color contrast ratio thresholds'',
       nodes = [\<lparr> target = Some [''video''] \<rparr>, \<lparr> target = Some [''a''] \<rparr>,
                \<lparr> target = Some [''img''] \<rparr>] \<rparr>"

definition noElement :: axe_violation where
  "noElement =
     \<lparr> violation_id = ''video-caption'', impact = None,
       description = ''Ensures <video> elements have captions'',
       help_text = ''<video> elements must have captions'',
       nodes = [\<lparr> target = Some [''video''] \<rparr>, \<lparr> target = None \<rparr>] \<rparr>"

section \<open>Auxiliary notions\<close>

text \<open>
  Attribution as the specification words it: an affected node resolves into a widget when
  the lookup of its target path finds an element that the widget contains; a violation is
  attributed to a widget when one of its affected nodes resolves into it. A target is usable
  when its path is a selector the host accepts.
\<close>

definition resolvesInto :: "host \<Rightarrow> document \<Rightarrow> elem \<Rightarrow> axe_node \<Rightarrow> bool" where
  "resolvesInto H d w node =
     (case target node of
        None \<Rightarrow> False
      | Some t \<Rightarrow>
          (case querySelector H d (join '' '' t) of
             Inr (Some element) \<Rightarrow> contains d w element
           | _ \<Rightarrow> False))"

definition attributed :: "host \<Rightarrow> document \<Rightarrow> elem \<Rightarrow> axe_violation \<Rightarrow> bool" where
  "attributed H d w v = list_ex (resolvesInto H d w) (nodes v)"

definition usableTarget :: "host \<Rightarrow> axe_node \<Rightarrow> bool" where
  "usableTarget H node =
     (case target node of None \<Rightarrow> True | Some t \<Rightarrow> selectorValid H (join '' '' t))"

definition usableTargets :: "host \<Rightarrow> axe_violation list \<Rightarrow> bool" where
  "usableTargets H vs = list_all (\<lambda>v. list_all (usableTarget H) (nodes v)) vs"

text \<open>The condition under which \<open>renderWidgetUI\<close> returns at once.\<close>

definition renderSkips :: "elem \<Rightarrow> axe_violation list \<Rightarrow> validator \<Rightarrow> bool" where
  "renderSkips w vs s =
     (lastViolationCount (getWidgetState s w) = int (length vs)
      \<and> hasUI (getWidgetState s w) = (0 < length vs))"

text \<open>
  The steps an audit is made of: logging an effect of a given kind, clearing or rendering
  a widget, injecting the style sheet, the two states in which a rejected call of the
  renderer leaves the page, and their compositions. The effects an audit logs itself are
  the calls of the engine, the pauses and the console output.
\<close>

fun isConsole :: "event \<Rightarrow> bool" where
  "isConsole ConsoleLog = True"
| "isConsole ConsoleWarn = True"
| "isConsole e = False"

fun isAuditEvent :: "event \<Rightarrow> bool" where
  "isAuditEvent (AxeRunCall opts) = True"
| "isAuditEvent (Pause n) = True"
| "isAuditEvent ConsoleLog = True"
| "isAuditEvent ConsoleWarn = True"
| "isAuditEvent e = False"

inductive inner :: "(event \<Rightarrow> bool) \<Rightarrow> validator \<Rightarrow> validator \<Rightarrow> bool" for P where
  inner_refl: "inner P s s"
| inner_trans: "inner P s t \<Longrightarrow> inner P t u \<Longrightarrow> inner P s u"
| inner_emit: "P e \<Longrightarrow> inner P s (emit e s)"
| inner_clear: "inner P s (clearWidgetUI w s)"
| inner_render: "inner P s (renderWidgetUI w vs s)"
| inner_css: "inner P s (injectCSS s)"
| inner_unmark: "inner P s (classListRemove w c s)"
| inner_attach: "inner P s (attachOverlay w vs s)"




text \<open>
  At most one timer is pending, and it is the one whose handle is stored. A burst is a
  sequence of requests, each followed by the time until the next one, then a last request
  and the time waited after it.
\<close>

definition pendingInvariant :: "validator \<Rightarrow> bool" where
  "pendingInvariant s =
     (length (timers s) \<le> 1 \<and> (\<forall>x \<in> set (timers s). recheckTimeout s = Some (fst x)))"

definition burst :: "(nat option \<times> nat) list \<Rightarrow> nat option \<Rightarrow> nat \<Rightarrow> action list" where
  "burst reqs lastDelay wait =
     concat (map (\<lambda>(d, g). [DebounceRecheck d, Advance g]) reqs)
       @ [DebounceRecheck lastDelay, Advance wait]"

text \<open>
  Every call of the engine in a list of effects carries the given options; the contents of
  an array field of the configuration that may be missing.
\<close>

definition axeEventsCarry :: "axe_run_options \<Rightarrow> event list \<Rightarrow> bool" where
  "axeEventsCarry opts ev = (\<forall>e \<in> set ev. isAxeRun e \<longrightarrow> e = AxeRunCall opts)"

definition arrayOf :: "validator \<Rightarrow> ref option \<Rightarrow> string list option" where
  "arrayOf s r = map_option (arrays s) r"

text \<open>
  A widget shows an overlay, under the class names of the state, when an element with its
  identity carries the outline class or has a child with the badge or the popup class of
  these names. An outline, a badge or a popup that was rendered under other class names is
  not an overlay in this sense. A function on elements shrinks when it keeps the identity
  and adds neither classes nor children.
\<close>

definition nodeOverlay :: "ui_classes \<Rightarrow> dnode \<Rightarrow> bool" where
  "nodeOverlay u n =
     (OUTLINE u \<in> set (classList n) \<or> list_ex (isOverlay u) (childNodes n))"

definition hasOverlay :: "validator \<Rightarrow> elem \<Rightarrow> bool" where
  "hasOverlay s w =
     list_ex (\<lambda>n. nid n = w \<and> nodeOverlay (uiClasses s) n) (allElements (document s))"

definition shrinking :: "(dnode \<Rightarrow> dnode) \<Rightarrow> bool" where
  "shrinking f =
     (\<forall>n. nid (f n) = nid n \<and> set (classList (f n)) \<subseteq> set (classList n)
          \<and> set (childNodes (f n)) \<subseteq> set (childNodes n))"

text \<open>
  The DOM accepts the class names of the overlay when it rejects no call of
  \<open>clearWidgetUI\<close>: the outline class is a class token and the host accepts the overlay
  selector. The class names are usable when they are moreover plain names: then the
  overlay selector selects the children of the widget that carry the badge or the popup
  class, and the document that \<open>clearWidgetUI\<close> leaves is the one on the page.
\<close>

definition domAccepts :: "host \<Rightarrow> ui_classes \<Rightarrow> bool" where
  "domAccepts H u =
     (tokenError (OUTLINE u) = None \<and> selectorValid H (overlaySelector u))"

definition usableClasses :: "host \<Rightarrow> ui_classes \<Rightarrow> bool" where
  "usableClasses H u =
     (plainName (OUTLINE u) \<and> plainName (BADGE u) \<and> plainName (POPUP u)
      \<and> selectorValid H (overlaySelector u))"

text \<open>
  Logging a list of effects; the widgets of a list are cleared when each has the state
  \<open>clearWidgetUI\<close> stores and shows no overlay; the effects of an audit in which the engine
  fails at every attempt, for a given number of retries.
\<close>

definition emits :: "event list \<Rightarrow> validator \<Rightarrow> validator" where
  "emits evs s = s\<lparr> effects := effects s @ evs \<rparr>"

definition cleared :: "elem list \<Rightarrow> validator \<Rightarrow> bool" where
  "cleared ws s = list_all (\<lambda>w. getWidgetState s w = \<lparr> lastViolationCount = 0, hasUI = False \<rparr>
                               \<and> \<not> hasOverlay s w) ws"

definition failingRun :: "axe_run_options \<Rightarrow> nat \<Rightarrow> bool \<Rightarrow> event list" where
  "failingRun opts retries debug =
     concat (replicate retries [AxeRunCall opts, Pause 50])
       @ AxeRunCall opts # (if debug then [ConsoleWarn] else [])"

section \<open>Lemmas about the renderer\<close>

lemma effects_emit: "effects (emit e s) = effects s @ [e]"
  by (simp add: emit_def)

lemma effects_setWidgetState: "effects (setWidgetState w p s) = effects s"
  by (simp add: setWidgetState_def Let_def)

lemma effects_classListRemove:
  "effects (classListRemove w c s) = effects s @ [ClassListRemove w c]"
  by (simp add: classListRemove_def emit_def)

lemma effects_removeOverlayChildren:
  "effects (removeOverlayChildren w s) = effects s @ map RemoveNode (overlayChildren s w)"
  by (simp add: removeOverlayChildren_def Let_def)

lemma effects_clearWidgetUI:
  "effects (clearWidgetUI w s) =
     effects s @ ClassListRemove w (OUTLINE (uiClasses s))
       # map RemoveNode (overlayChildren (classListRemove w (OUTLINE (uiClasses s)) s) w)"
  by (simp add: clearWidgetUI_def effects_setWidgetState effects_removeOverlayChildren
      effects_classListRemove)


lemma renderWidgetUI_skip: "renderSkips w vs s \<Longrightarrow> renderWidgetUI w vs s = s"
  by (simp add: renderWidgetUI_def renderSkips_def Let_def)

lemma renderWidgetUI_empty: "\<not> renderSkips w [] s \<Longrightarrow> renderWidgetUI w [] s = clearWidgetUI w s"
  unfolding renderWidgetUI_def renderSkips_def Let_def by (simp only: if_False list.size simp_thms if_True)

lemma renderWidgetUI_nonempty:
  "\<not> renderSkips w vs s \<Longrightarrow> vs \<noteq> [] \<Longrightarrow>
   renderWidgetUI w vs s =
     (let s1 = clearWidgetUI w s;
          s2 = classListAdd w (OUTLINE (uiClasses s1)) s1;
          btn = fst (createBadge (length vs) s2);
          s3 = snd (createBadge (length vs) s2);
          popup = fst (createPopup vs s3);
          s4 = snd (createPopup vs s3)
      in setWidgetState w
           \<lparr> lastViolationCount_opt = Some (int (length vs)), hasUI_opt = Some True \<rparr>
           (setupUIInteractions btn popup w (appendChild w popup (appendChild w btn s4))))"
  unfolding renderWidgetUI_def renderSkips_def Let_def split_def
  by (simp only: if_False length_0_conv)

lemma effects_createBadge: "effects (snd (createBadge n s)) = effects s"
  by (simp add: createBadge_def)

lemma effects_createPopup: "effects (snd (createPopup vs s)) = effects s"
  by (simp add: createPopup_def)

lemma effects_classListAdd:
  "effects (classListAdd w c s) = effects s @ [ClassListAdd w c]"
  by (simp add: classListAdd_def emit_def)

lemma effects_appendChild:
  "effects (appendChild w k s) = effects s @ [AppendChild w (nid k)]"
  by (simp add: appendChild_def emit_def)

lemma effects_setupUIInteractions:
  "effects (setupUIInteractions b p w s) = effects s @ [AddClickListener (nid p)]"
  by (simp add: setupUIInteractions_def emit_def)

lemma uiClasses_clearWidgetUI: "uiClasses (clearWidgetUI w s) = uiClasses s"
  using sameSetup_clearWidgetUI[of s w] by (simp add: sameSetup_def)

lemma effects_renderWidgetUI_nonempty:
  assumes "\<not> renderSkips w vs s" and "vs \<noteq> []"
  shows "\<exists>b p. effects (renderWidgetUI w vs s) =
     effects (clearWidgetUI w s) @
       [ClassListAdd w (OUTLINE (uiClasses s)), AppendChild w b, AppendChild w p,
        AddClickListener p]"
  by (simp add: renderWidgetUI_nonempty[OF assms] Let_def effects_setWidgetState
      effects_setupUIInteractions effects_appendChild effects_createPopup effects_createBadge
      effects_classListAdd uiClasses_clearWidgetUI)



lemma getWidgetState_setWidgetState:
  "getWidgetState (setWidgetState w \<lparr> lastViolationCount_opt = Some c, hasUI_opt = Some b \<rparr> s) w'
     = (if w' = w then \<lparr> lastViolationCount = c, hasUI = b \<rparr> else getWidgetState s w')"
  by (simp add: setWidgetState_def getWidgetState_def Let_def)

lemma widgetCache_classListRemove: "widgetCache (classListRemove w c s) = widgetCache s"
  by (simp add: classListRemove_def emit_def)



lemma widgetCache_removeOverlayChildren: "widgetCache (removeOverlayChildren w s) = widgetCache s"
  by (simp add: removeOverlayChildren_def Let_def)


lemma getWidgetState_cong: "widgetCache s' = widgetCache s \<Longrightarrow> getWidgetState s' = getWidgetState s"
  by (simp add: getWidgetState_def fun_eq_iff)

lemma getWidgetState_clearWidgetUI:
  "getWidgetState (clearWidgetUI w s) w' =
     (if w' = w then \<lparr> lastViolationCount = 0, hasUI = False \<rparr> else getWidgetState s w')"
  by (simp add: clearWidgetUI_def getWidgetState_setWidgetState
      getWidgetState_cong[OF widgetCache_removeOverlayChildren]
      getWidgetState_cong[OF widgetCache_classListRemove])




lemma attachOverlay_unfold:
  "attachOverlay w vs s =
     appendChild w (fst (createPopup vs (snd (createBadge (length vs)
          (classListAdd w (OUTLINE (uiClasses s)) (clearWidgetUI w s))))))
       (appendChild w (fst (createBadge (length vs)
          (classListAdd w (OUTLINE (uiClasses s)) (clearWidgetUI w s))))
         (snd (createPopup vs (snd (createBadge (length vs)
            (classListAdd w (OUTLINE (uiClasses s)) (clearWidgetUI w s)))))))"
  by (simp add: attachOverlay_def Let_def split_def uiClasses_clearWidgetUI)

lemma effects_attachOverlay:
  "\<exists>b p. effects (attachOverlay w vs s) =
     effects (clearWidgetUI w s) @
       [ClassListAdd w (OUTLINE (uiClasses s)), AppendChild w b, AppendChild w p]"
  by (simp add: attachOverlay_unfold effects_appendChild effects_createPopup effects_createBadge
      effects_classListAdd)


lemma callClearWidgetUI_cases:
  "callClearWidgetUI H w s = (None, clearWidgetUI w s)
   \<or> (\<exists>e. callClearWidgetUI H w s = (Some e, s))
   \<or> callClearWidgetUI H w s = (Some SyntaxError, classListRemove w (OUTLINE (uiClasses s)) s)"
  by (auto simp: callClearWidgetUI_def clearRejected_def split: option.splits)

lemma callRenderWidgetUI_cases:
  "callRenderWidgetUI H w vs s = (None, renderWidgetUI w vs s)
   \<or> (\<exists>e. callRenderWidgetUI H w vs s = (Some e, s))
   \<or> callRenderWidgetUI H w vs s
       = (Some SyntaxError, classListRemove w (OUTLINE (uiClasses s)) s)
   \<or> callRenderWidgetUI H w vs s = (Some SyntaxError, attachOverlay w vs s)"
  by (auto simp: callRenderWidgetUI_def renderRejected_def clearRejected_def Let_def
      split: option.splits if_splits)

section \<open>Lemmas about audits and runs\<close>

declare auditLoop.simps [simp del]

lemma inner_callClearWidgetUI: "inner P s (snd (callClearWidgetUI H w s))"
  using callClearWidgetUI_cases[of H w s]
  by (auto intro: inner_refl inner_clear inner_unmark)

lemma inner_callRenderWidgetUI: "inner P s (snd (callRenderWidgetUI H w vs s))"
  using callRenderWidgetUI_cases[of H w vs s]
  by (auto intro: inner_refl inner_render inner_unmark inner_attach)

lemma inner_forEach:
  "(\<And>x t. inner P t (snd (f x t))) \<Longrightarrow> inner P s (snd (forEach f xs s))"
proof (induction xs arbitrary: s)
  case Nil
  then show ?case by (simp add: inner_refl)
next
  case (Cons x xs)
  obtain r t where f: "f x s = (r, t)" by (metis surj_pair)
  have a: "inner P s t" using Cons.prems[of s x] f by simp
  show ?case
  proof (cases r)
    case None
    have "inner P t (snd (forEach f xs t))" by (rule Cons.IH) (rule Cons.prems)
    with a have "inner P s (snd (forEach f xs t))" by (rule inner_trans)
    with f None show ?thesis by simp
  next
    case (Some e)
    with a f show ?thesis by simp
  qed
qed

lemma sameSetup_injectCSS: "sameSetup s (injectCSS s)"
  by (simp add: injectCSS_def Let_def sameSetup_def emit_def audits_def)

lemma inner_fold: "(\<And>x t. inner P t (f x t)) \<Longrightarrow> inner P s (fold f xs s)"
proof (induction xs arbitrary: s)
  case Nil
  then show ?case by (simp add: inner_refl)
next
  case (Cons x xs)
  have "inner P s (f x s)" by (rule Cons.prems)
  moreover have "inner P (f x s) (fold f xs (f x s))" by (rule Cons.IH) (rule Cons.prems)
  ultimately show ?case by (simp add: inner_trans)
qed

lemma inner_renderEach: "inner P s (snd (renderEach H vs ws s))"
proof (induction ws arbitrary: s)
  case Nil
  then show ?case by (simp add: inner_refl)
next
  case (Cons w ws)
  show ?case
  proof (cases "widgetViolations H (document s) w vs")
    case (Inl e)
    then show ?thesis by (simp add: inner_refl)
  next
    case (Inr r)
    obtain x t where c: "callRenderWidgetUI H w r s = (x, t)" by (metis surj_pair)
    have a: "inner P s t" using inner_callRenderWidgetUI[of P s H w r] c by simp
    show ?thesis
    proof (cases x)
      case None
      with Inr c inner_trans[OF a Cons.IH] show ?thesis by simp
    next
      case (Some e)
      with Inr c a show ?thesis by simp
    qed
  qed
qed

lemma inner_tryAudit: "inner isAuditEvent s (snd (tryAudit H ws s))"
proof (cases "axeRun H (axeCalls s)")
  case (Inl e)
  then show ?thesis by (simp add: tryAudit_def Let_def inner_emit)
next
  case (Inr vs)
  let ?s1 = "emit (AxeRunCall (axeOptions s)) s"
  let ?s2 = "if debugLogging ?s1 then emit ConsoleLog ?s1 else ?s1"
  have a: "inner isAuditEvent s ?s1" by (simp add: inner_emit)
  have b: "inner isAuditEvent ?s1 (emit ConsoleLog ?s1)" by (simp add: inner_emit)
  have "inner isAuditEvent s ?s2"
    using a inner_trans[OF a b] by simp
  then have "inner isAuditEvent s (snd (renderEach H vs ws ?s2))"
    by (rule inner_trans) (rule inner_renderEach)
  with Inr show ?thesis by (simp add: tryAudit_def Let_def)
qed

lemma inner_giveUp: "P ConsoleWarn \<Longrightarrow> inner P s (snd (giveUp H ws s))"
proof -
  assume "P ConsoleWarn"
  then have "inner P s (if debugLogging s then emit ConsoleWarn s else s)"
    by (simp add: inner_emit inner_refl)
  then show ?thesis
    unfolding giveUp_def
    by (rule inner_trans) (rule inner_forEach, rule inner_callRenderWidgetUI)
qed

lemma inner_auditLoop: "inner isAuditEvent s (snd (auditLoop H ws a s))"
proof (induction H ws a s rule: auditLoop.induct)
  case (1 H ws a s)
  show ?case
  proof (cases "withinRetries a s")
    case False
    then show ?thesis by (simp add: auditLoop.simps[of H ws a s] inner_refl)
  next
    case True
    obtain x y where xy: "(x, y) = tryAudit H ws s" by (metis surj_pair)
    then have y: "y = snd (tryAudit H ws s)" by (metis snd_conv)
    have t: "inner isAuditEvent s y" unfolding y by (rule inner_tryAudit)
    show ?thesis
    proof (cases x)
      case None
      with True xy[symmetric] t show ?thesis by (simp add: auditLoop.simps[of H ws a s])
    next
      case (Some e)
      show ?thesis
      proof (cases "beyondRetries (Suc a) y")
        case b: True
        obtain x' y' where g: "(x', y') = giveUp H ws y" by (metis surj_pair)
        then have y': "y' = snd (giveUp H ws y)" by (metis snd_conv)
        have "inner isAuditEvent y y'"
          unfolding y' by (rule inner_giveUp) simp
        with t have ty': "inner isAuditEvent s y'" by (rule inner_trans)
        show ?thesis
        proof (cases x')
          case None
          have "inner isAuditEvent y' (snd (auditLoop H ws (Suc a) y'))"
            by (rule "1.IH"(1)[OF True xy Some b g None])
          with ty' have "inner isAuditEvent s (snd (auditLoop H ws (Suc a) y'))"
            by (rule inner_trans)
          with True xy[symmetric] Some b g[symmetric] None show ?thesis
            by (simp add: auditLoop.simps[of H ws a s])
        next
          case (Some e')
          with True xy[symmetric] \<open>x = Some e\<close> b g[symmetric] ty' show ?thesis
            by (simp add: auditLoop.simps[of H ws a s])
        qed
      next
        case b: False
        have "inner isAuditEvent (emit (Pause 50) y)
                (snd (auditLoop H ws (Suc a) (emit (Pause 50) y)))"
          by (rule "1.IH"(2)[OF True xy Some b])
        moreover have "inner isAuditEvent y (emit (Pause 50) y)" by (simp add: inner_emit)
        ultimately have "inner isAuditEvent s (snd (auditLoop H ws (Suc a) (emit (Pause 50) y)))"
          using t inner_trans by blast
        with True xy[symmetric] Some b show ?thesis
          by (simp add: auditLoop.simps[of H ws a s])
      qed
    qed
  qed
qed

lemma inner_recheckAll: "inner isAuditEvent (emit RecheckAllEntered s) (snd (recheckAll H s))"
proof -
  let ?s1 = "injectCSS (emit RecheckAllEntered s)"
  have a: "inner isAuditEvent (emit RecheckAllEntered s) ?s1" by (rule inner_css)
  show ?thesis
  proof (cases "getAllWidgets H ?s1")
    case (Inl e)
    with a show ?thesis by (simp add: recheckAll_def Let_def)
  next
    case (Inr ws)
    obtain x s2 where c: "forEach (callClearWidgetUI H) ws ?s1 = (x, s2)" by (metis surj_pair)
    have "inner isAuditEvent ?s1 (snd (forEach (callClearWidgetUI H) ws ?s1))"
      by (rule inner_forEach) (rule inner_callClearWidgetUI)
    with a c have b: "inner isAuditEvent (emit RecheckAllEntered s) s2"
      using inner_trans by fastforce
    have "inner isAuditEvent s2 (snd (auditLoop H ws 0 s2))" by (rule inner_auditLoop)
    with b have "inner isAuditEvent (emit RecheckAllEntered s) (snd (auditLoop H ws 0 s2))"
      by (rule inner_trans)
    with a b c Inr show ?thesis by (cases x) (simp_all add: recheckAll_def Let_def)
  qed
qed

lemma inner_sameSetup: "inner isAuditEvent s s' \<Longrightarrow> sameSetup s s'"
proof (induction rule: inner.induct)
  case (inner_trans s t u)
  then show ?case by (blast intro: sameSetup_trans)
next
  case (inner_emit e s)
  then have "e \<noteq> RecheckAllEntered" by (cases e) simp_all
  then show ?case by (rule sameSetup_emit)
qed (simp_all add: sameSetup_refl sameSetup_emit sameSetup_clearWidgetUI
      sameSetup_renderWidgetUI sameSetup_injectCSS sameSetup_classListRemove
      sameSetup_attachOverlay)






















section \<open>Lemmas about the effects of an audit\<close>

lemma effects_injectCSS:
  "\<exists>ev. effects (injectCSS s) = effects s @ ev \<and> (\<forall>e \<in> set ev. isDomWrite e)"
  by (simp add: injectCSS_def Let_def emit_def)

lemma effects_renderWidgetUI:
  "\<exists>ev. effects (renderWidgetUI w vs s) = effects s @ ev \<and> (\<forall>e \<in> set ev. isDomWrite e)"
proof (cases "renderSkips w vs s")
  case True
  then show ?thesis by (simp add: renderWidgetUI_skip)
next
  case False
  show ?thesis
  proof (cases "vs = []")
    case True
    with False show ?thesis by (auto simp: renderWidgetUI_empty effects_clearWidgetUI)
  next
    case ne: False
    from effects_renderWidgetUI_nonempty[OF False ne] show ?thesis
      by (auto simp: effects_clearWidgetUI)
  qed
qed

lemma inner_effects:
  "inner P s s' \<Longrightarrow> \<exists>ev. effects s' = effects s @ ev \<and> (\<forall>e \<in> set ev. P e \<or> isDomWrite e)"
proof (induction rule: inner.induct)
  case (inner_refl s)
  show ?case by simp
next
  case (inner_trans s t u)
  then obtain ev1 ev2 where "effects t = effects s @ ev1" "\<forall>e \<in> set ev1. P e \<or> isDomWrite e"
    "effects u = effects t @ ev2" "\<forall>e \<in> set ev2. P e \<or> isDomWrite e" by blast
  then have "effects u = effects s @ (ev1 @ ev2) \<and> (\<forall>e \<in> set (ev1 @ ev2). P e \<or> isDomWrite e)"
    by auto
  then show ?case by blast
next
  case (inner_emit e s)
  then show ?case by (simp add: emit_def)
next
  case (inner_clear s w)
  show ?case by (simp add: effects_clearWidgetUI)
next
  case (inner_render s w vs)
  from effects_renderWidgetUI[of w vs s] show ?case by blast
next
  case (inner_css s)
  from effects_injectCSS[of s] show ?case by blast
next
  case (inner_unmark s w c)
  show ?case by (simp add: effects_classListRemove)
next
  case (inner_attach s w vs)
  from effects_attachOverlay[of w vs s] show ?case by (auto simp: effects_clearWidgetUI)
qed

lemma axeOptions_eq:
  "theConfig s' = theConfig s \<Longrightarrow> arrays s' = arrays s \<Longrightarrow> axeOptions s' = axeOptions s"
  by (simp add: axeOptions_def cong: option.case_cong if_cong)

lemma axeOptions_cong: "sameSetup s s' \<Longrightarrow> axeOptions s' = axeOptions s"
  by (rule axeOptions_eq) (simp_all add: sameSetup_def theConfig_def)

lemma debugLogging_cong: "sameSetup s s' \<Longrightarrow> debugLogging s' = debugLogging s"
  by (simp add: debugLogging_def sameSetup_def theConfig_def)

lemma axeEventsCarry_append:
  "axeEventsCarry opts (xs @ ys) = (axeEventsCarry opts xs \<and> axeEventsCarry opts ys)"
  by (auto simp: axeEventsCarry_def)

lemma axeEventsCarry_quiet:
  "\<forall>e \<in> set ev. isConsole e \<or> isDomWrite e \<Longrightarrow> axeEventsCarry opts ev"
  unfolding axeEventsCarry_def
proof
  fix e assume a: "\<forall>e \<in> set ev. isConsole e \<or> isDomWrite e" and e: "e \<in> set ev"
  then have "isConsole e \<or> isDomWrite e" by blast
  then have "\<not> isAxeRun e" by (cases e) simp_all
  then show "isAxeRun e \<longrightarrow> e = AxeRunCall opts" by simp
qed

lemma inner_console_tryAudit_rest:
  "inner isConsole s (snd (renderEach H vs ws (if debugLogging s then emit ConsoleLog s else s)))"
proof -
  have "inner isConsole s (if debugLogging s then emit ConsoleLog s else s)"
    by (simp add: inner_emit inner_refl)
  then show ?thesis by (rule inner_trans) (rule inner_renderEach)
qed

lemma effects_tryAudit:
  "\<exists>ev. effects (snd (tryAudit H ws s)) = effects s @ AxeRunCall (axeOptions s) # ev
        \<and> (\<forall>e \<in> set ev. isConsole e \<or> isDomWrite e)"
proof (cases "axeRun H (axeCalls s)")
  case (Inl e)
  then show ?thesis by (simp add: tryAudit_def Let_def emit_def)
next
  case (Inr vs)
  let ?s1 = "emit (AxeRunCall (axeOptions s)) s"
  from inner_effects[OF inner_console_tryAudit_rest[of ?s1 H vs ws]] obtain ev where
    "effects (snd (renderEach H vs ws (if debugLogging ?s1 then emit ConsoleLog ?s1 else ?s1)))
       = effects ?s1 @ ev" "\<forall>e \<in> set ev. isConsole e \<or> isDomWrite e" by blast
  moreover have "effects ?s1 = effects s @ [AxeRunCall (axeOptions s)]"
    by (rule effects_emit)
  ultimately show ?thesis using Inr by (simp add: tryAudit_def Let_def)
qed

lemma effects_giveUp:
  "\<exists>ev. effects (snd (giveUp H ws s)) = effects s @ ev
        \<and> (\<forall>e \<in> set ev. isConsole e \<or> isDomWrite e)"
  by (rule inner_effects) (simp add: inner_giveUp)

lemma auditLoop_axe_events:
  "\<exists>ev. effects (snd (auditLoop H ws a s)) = effects s @ ev \<and> axeEventsCarry (axeOptions s) ev"
proof (induction H ws a s rule: auditLoop.induct)
  case (1 H ws a s)
  show ?case
  proof (cases "withinRetries a s")
    case False
    then show ?thesis by (simp add: auditLoop.simps[of H ws a s] axeEventsCarry_def)
  next
    case True
    obtain x y where xy: "(x, y) = tryAudit H ws s" by (metis surj_pair)
    then have y: "y = snd (tryAudit H ws s)" by (metis snd_conv)
    from effects_tryAudit[of H ws s] obtain ev1 where
      ev1: "effects y = effects s @ AxeRunCall (axeOptions s) # ev1"
      "\<forall>e \<in> set ev1. isConsole e \<or> isDomWrite e" unfolding y by blast
    have c1: "axeEventsCarry (axeOptions s) (AxeRunCall (axeOptions s) # ev1)"
      using axeEventsCarry_quiet[OF ev1(2), of "axeOptions s"]
      by (simp add: axeEventsCarry_def)
    have sy: "sameSetup s y" unfolding y by (rule sameSetup_tryAudit)
    show ?thesis
    proof (cases x)
      case None
      with True xy[symmetric] ev1(1) c1 show ?thesis
        by (simp add: auditLoop.simps[of H ws a s])
    next
      case (Some e)
      show ?thesis
      proof (cases "beyondRetries (Suc a) y")
        case b: True
        obtain x' g where g: "(x', g) = giveUp H ws y" by (metis surj_pair)
        then have g': "g = snd (giveUp H ws y)" by (metis snd_conv)
        from effects_giveUp[of H ws y] obtain ev2 where
          ev2: "effects g = effects y @ ev2" "\<forall>e \<in> set ev2. isConsole e \<or> isDomWrite e"
          unfolding g' by blast
        have c2: "axeEventsCarry (axeOptions s) ((AxeRunCall (axeOptions s) # ev1) @ ev2)"
          using c1 axeEventsCarry_quiet[OF ev2(2), of "axeOptions s"]
          by (simp only: axeEventsCarry_append simp_thms)
        have e2: "effects g = effects s @ ((AxeRunCall (axeOptions s) # ev1) @ ev2)"
          using ev1(1) ev2(1) by simp
        show ?thesis
        proof (cases x')
          case None
          from "1.IH"(1)[OF True xy Some b g None] obtain ev3 where
            ev3: "effects (snd (auditLoop H ws (Suc a) g)) = effects g @ ev3"
            "axeEventsCarry (axeOptions g) ev3" by blast
          have "sameSetup s g"
            unfolding g' using sy sameSetup_giveUp sameSetup_trans by blast
          then have o: "axeOptions g = axeOptions s" by (rule axeOptions_cong)
          have "effects (snd (auditLoop H ws (Suc a) g)) =
                 effects s @ ((AxeRunCall (axeOptions s) # ev1) @ ev2 @ ev3)"
            using e2 ev3(1) by simp
          moreover have "axeEventsCarry (axeOptions s)
                 ((AxeRunCall (axeOptions s) # ev1) @ ev2 @ ev3)"
            using c1 axeEventsCarry_quiet[OF ev2(2), of "axeOptions s"] ev3(2) o
            by (simp only: axeEventsCarry_append simp_thms)
          moreover have "auditLoop H ws a s = auditLoop H ws (Suc a) g"
            using True xy[symmetric] Some b g[symmetric] None
            by (simp add: auditLoop.simps[of H ws a s])
          ultimately show ?thesis by metis
        next
          case (Some e')
          have "snd (auditLoop H ws a s) = g"
            using True xy[symmetric] \<open>x = Some e\<close> b g[symmetric] Some
            by (simp add: auditLoop.simps[of H ws a s])
          with e2 c2 show ?thesis by metis
        qed
      next
        case b: False
        let ?g = "emit (Pause 50) y"
        from "1.IH"(2)[OF True xy Some b] obtain ev3 where
          ev3: "effects (snd (auditLoop H ws (Suc a) ?g)) = effects ?g @ ev3"
          "axeEventsCarry (axeOptions ?g) ev3" by blast
        have "sameSetup y ?g" by (simp add: sameSetup_emit)
        with sy have "sameSetup s ?g" by (rule sameSetup_trans)
        then have o: "axeOptions ?g = axeOptions s" by (rule axeOptions_cong)
        have "effects (snd (auditLoop H ws (Suc a) ?g)) =
               effects s @ ((AxeRunCall (axeOptions s) # ev1) @ [Pause 50] @ ev3)"
          using ev1(1) ev3(1) by (simp add: emit_def)
        moreover have "axeEventsCarry (axeOptions s) [Pause 50]" by (simp add: axeEventsCarry_def)
        then have "axeEventsCarry (axeOptions s) ((AxeRunCall (axeOptions s) # ev1) @ [Pause 50] @ ev3)"
          using c1 ev3(2) o by (simp only: axeEventsCarry_append simp_thms)
        moreover have "auditLoop H ws a s = auditLoop H ws (Suc a) ?g"
          using True xy[symmetric] Some b by (simp add: auditLoop.simps[of H ws a s])
        ultimately show ?thesis by metis
      qed
    qed
  qed
qed

lemma inner_fold_clear: "inner P s (fold clearWidgetUI ws s)"
  by (rule inner_fold) (rule inner_clear)

lemma inner_forEach_clear: "inner P s (snd (forEach (callClearWidgetUI H) ws s))"
  by (rule inner_forEach) (rule inner_callClearWidgetUI)

lemma recheckAll_axe_events:
  "\<exists>ev. effects (snd (recheckAll H s)) = effects s @ ev \<and> axeEventsCarry (axeOptions s) ev"
proof -
  let ?s0 = "emit RecheckAllEntered s"
  let ?s1 = "injectCSS ?s0"
  have i: "inner isConsole ?s0 ?s1" by (rule inner_css)
  from inner_effects[OF i] obtain ev1 where
    ev1: "effects ?s1 = effects ?s0 @ ev1" "\<forall>e \<in> set ev1. isConsole e \<or> isDomWrite e" by blast
  have e1: "effects ?s1 = effects s @ (RecheckAllEntered # ev1)"
    using ev1(1) by (simp add: emit_def)
  have c1: "axeEventsCarry (axeOptions s) (RecheckAllEntered # ev1)"
    using axeEventsCarry_quiet[OF ev1(2), of "axeOptions s"] by (simp add: axeEventsCarry_def)
  show ?thesis
  proof (cases "getAllWidgets H ?s1")
    case (Inl e)
    with e1 c1 show ?thesis by (auto simp: recheckAll_def Let_def)
  next
    case (Inr ws)
    show ?thesis
    proof (cases "ws = []")
      case True
      with Inr e1 c1 show ?thesis by (auto simp: recheckAll_def Let_def)
    next
      case False
      obtain x s2 where c: "forEach (callClearWidgetUI H) ws ?s1 = (x, s2)" by (metis surj_pair)
      then have s2: "s2 = snd (forEach (callClearWidgetUI H) ws ?s1)" by simp
      from inner_effects[OF inner_forEach_clear[of isConsole ?s1 H ws]] obtain ev2 where
        ev2: "effects s2 = effects ?s1 @ ev2" "\<forall>e \<in> set ev2. isConsole e \<or> isDomWrite e"
        unfolding s2 by blast
      have e2: "effects s2 = effects s @ ((RecheckAllEntered # ev1) @ ev2)"
        using e1 ev2(1) by simp
      have c2: "axeEventsCarry (axeOptions s) ((RecheckAllEntered # ev1) @ ev2)"
        using c1 axeEventsCarry_quiet[OF ev2(2), of "axeOptions s"]
        by (simp only: axeEventsCarry_append simp_thms)
      show ?thesis
      proof (cases x)
        case (Some e)
        have "snd (recheckAll H s) = s2"
          using Inr False c Some by (simp add: recheckAll_def Let_def)
        with e2 c2 show ?thesis by metis
      next
        case None
        from auditLoop_axe_events[of H ws 0 s2] obtain ev3 where
          ev3: "effects (snd (auditLoop H ws 0 s2)) = effects s2 @ ev3"
          "axeEventsCarry (axeOptions s2) ev3" by blast
        have "inner isAuditEvent ?s0 s2"
          unfolding s2
          using inner_css[of isAuditEvent ?s0] inner_forEach_clear[of isAuditEvent ?s1 H ws]
            inner_trans by blast
        then have "sameSetup ?s0 s2" by (rule inner_sameSetup)
        then have "axeOptions s2 = axeOptions ?s0" by (rule axeOptions_cong)
        moreover have "axeOptions ?s0 = axeOptions s"
          by (rule axeOptions_eq) (simp_all add: emit_def theConfig_def)
        ultimately have o: "axeOptions s2 = axeOptions s" by simp
        have "effects (snd (auditLoop H ws 0 s2))
                = effects s @ ((RecheckAllEntered # ev1) @ ev2 @ ev3)"
          using e2 ev3(1) by simp
        moreover have "axeEventsCarry (axeOptions s) ((RecheckAllEntered # ev1) @ ev2 @ ev3)"
          using c1 axeEventsCarry_quiet[OF ev2(2), of "axeOptions s"] ev3(2) o
          by (simp only: axeEventsCarry_append simp_thms)
        moreover have "snd (recheckAll H s) = snd (auditLoop H ws 0 s2)"
          using Inr False c None by (simp add: recheckAll_def Let_def)
        ultimately show ?thesis by metis
      qed
    qed
  qed
qed

lemma axeOptions_cases:
  "(runOnly (axeOptions s) = Some \<lparr> run_type = Rule, run_values = vals \<rparr>
      \<longleftrightarrow> arrayOf s (axeRules (theConfig s)) = Some vals \<and> vals \<noteq> [])
   \<and> (runOnly (axeOptions s) = Some \<lparr> run_type = Tag, run_values = vals \<rparr>
      \<longleftrightarrow> (arrayOf s (axeRules (theConfig s)) = None \<or> arrayOf s (axeRules (theConfig s)) = Some [])
          \<and> arrayOf s (axeTags (theConfig s)) = Some vals \<and> vals \<noteq> [])
   \<and> (runOnly (axeOptions s) = None
      \<longleftrightarrow> (arrayOf s (axeRules (theConfig s)) = None \<or> arrayOf s (axeRules (theConfig s)) = Some [])
          \<and> (arrayOf s (axeTags (theConfig s)) = None \<or> arrayOf s (axeTags (theConfig s)) = Some []))"
  by (cases "axeRules (theConfig s)"; cases "axeTags (theConfig s)")
     (auto simp: axeOptions_def arrayOf_def Let_def)

section \<open>Lemmas about the document\<close>

lemma flatten_unfold: "flatten n = n # concat (map flatten (childNodes n))"
  by (cases n) simp

lemma self_in_flatten: "n \<in> set (flatten n)"
  by (cases n) simp

lemma child_in_flatten: "k \<in> set (childNodes n) \<Longrightarrow> set (flatten k) \<subseteq> set (flatten n)"
  by (cases n) auto

lemma mapTree_shrinks:
  assumes "shrinking f"
  shows "nid (mapTree f n) = nid n"
    and "set (classList (mapTree f n)) \<subseteq> set (classList n)"
    and "set (childNodes (mapTree f n)) \<subseteq> mapTree f ` set (childNodes n)"
proof -
  obtain a t i c m h ks where n: "n = Element a t i c m h ks" by (cases n)
  let ?e = "Element a t i c m h (map (mapTree f) ks)"
  from assms have "nid (f ?e) = nid ?e" "set (classList (f ?e)) \<subseteq> set (classList ?e)"
    "set (childNodes (f ?e)) \<subseteq> set (childNodes ?e)"
    unfolding shrinking_def by blast+
  then show "nid (mapTree f n) = nid n"
    and "set (classList (mapTree f n)) \<subseteq> set (classList n)"
    and "set (childNodes (mapTree f n)) \<subseteq> mapTree f ` set (childNodes n)"
    by (simp_all add: n)
qed

lemma flatten_mapTree:
  "shrinking f \<Longrightarrow> set (flatten (mapTree f t)) \<subseteq> mapTree f ` set (flatten t)"
proof (induction t)
  case (Element a t i c m h ks)
  let ?n = "Element a t i c m h ks"
  show ?case
  proof
    fix x assume "x \<in> set (flatten (mapTree f ?n))"
    then consider "x = mapTree f ?n"
      | k' where "k' \<in> set (childNodes (mapTree f ?n))" "x \<in> set (flatten k')"
      by (subst (asm) flatten_unfold) auto
    then show "x \<in> mapTree f ` set (flatten ?n)"
    proof cases
      case 1
      then show ?thesis using self_in_flatten[of ?n] by blast
    next
      case 2
      with mapTree_shrinks(3)[OF Element.prems, of ?n] obtain k where
        k: "k \<in> set ks" "k' = mapTree f k" by auto
      with Element.IH[OF k(1) Element.prems] 2 have "x \<in> mapTree f ` set (flatten k)" by blast
      moreover have "set (flatten k) \<subseteq> set (flatten ?n)"
        using k(1) child_in_flatten[of k ?n] by simp
      ultimately show ?thesis by blast
    qed
  qed
qed

lemma allElements_mapDocument:
  "shrinking f \<Longrightarrow> set (allElements (mapDocument f d)) \<subseteq> mapTree f ` set (allElements d)"
  using flatten_mapTree[of f "head d"] flatten_mapTree[of f "body d"]
  by (auto simp: allElements_def mapDocument_def)

lemma isOverlay_mono:
  "set (classList k') \<subseteq> set (classList k) \<Longrightarrow> isOverlay u k' \<Longrightarrow> isOverlay u k"
  by (auto simp: isOverlay_def)

lemma nodeOverlay_mapTree:
  assumes "shrinking f" and "nodeOverlay u (mapTree f n)"
  shows "nodeOverlay u n"
proof -
  from assms(2) consider "OUTLINE u \<in> set (classList (mapTree f n))"
    | k' where "k' \<in> set (childNodes (mapTree f n))" "isOverlay u k'"
    by (auto simp: nodeOverlay_def list_ex_iff)
  then show ?thesis
  proof cases
    case 1
    with mapTree_shrinks(2)[OF assms(1), of n] show ?thesis by (auto simp: nodeOverlay_def)
  next
    case 2
    with mapTree_shrinks(3)[OF assms(1), of n] obtain k where
      k: "k \<in> set (childNodes n)" "k' = mapTree f k" by auto
    from 2(2) have "isOverlay u k"
      unfolding k(2) using mapTree_shrinks(2)[OF assms(1), of k] by (rule isOverlay_mono[rotated])
    with k(1) show ?thesis by (auto simp: nodeOverlay_def list_ex_iff)
  qed
qed

lemma hasOverlay_shrinks:
  assumes "shrinking f" and "uiClasses s' = uiClasses s"
    and "document s' = mapDocument f (document s)" and "hasOverlay s' w"
  shows "hasOverlay s w"
proof -
  from assms(4) obtain n' where n': "n' \<in> set (allElements (document s'))" "nid n' = w"
    "nodeOverlay (uiClasses s') n'" by (auto simp: hasOverlay_def list_ex_iff)
  with allElements_mapDocument[OF assms(1), of "document s"] assms(3) obtain n where
    n: "n \<in> set (allElements (document s))" "n' = mapTree f n" by auto
  have "nid n = w" using n' n(2) mapTree_shrinks(1)[OF assms(1), of n] by simp
  moreover have "nodeOverlay (uiClasses s) n"
    using n'(3) n(2) assms(2) nodeOverlay_mapTree[OF assms(1)] by simp
  ultimately show ?thesis using n(1) by (auto simp: hasOverlay_def list_ex_iff)
qed

lemma shrinking_removeClass:
  "shrinking (atElement w (\<lambda>n. setClassList (removeAll c (classList n)) n))"
  unfolding shrinking_def atElement_def
proof
  fix n show "nid (if nid n = w then setClassList (removeAll c (classList n)) n else n) = nid n \<and>
         set (classList (if nid n = w then setClassList (removeAll c (classList n)) n else n))
         \<subseteq> set (classList n) \<and>
         set (childNodes (if nid n = w then setClassList (removeAll c (classList n)) n else n))
         \<subseteq> set (childNodes n)"
    by (cases n) auto
qed

lemma shrinking_filterChildren:
  "shrinking (atElement w (\<lambda>n. setChildNodes (filter P (childNodes n)) n))"
  unfolding shrinking_def atElement_def
proof
  fix n show "nid (if nid n = w then setChildNodes (filter P (childNodes n)) n else n) = nid n \<and>
         set (classList (if nid n = w then setChildNodes (filter P (childNodes n)) n else n))
         \<subseteq> set (classList n) \<and>
         set (childNodes (if nid n = w then setChildNodes (filter P (childNodes n)) n else n))
         \<subseteq> set (childNodes n)"
    by (cases n) auto
qed

lemma hasOverlay_cong:
  "uiClasses s' = uiClasses s \<Longrightarrow> document s' = document s \<Longrightarrow> hasOverlay s' w = hasOverlay s w"
  by (simp add: hasOverlay_def)

lemma hasOverlay_classListRemove:
  "hasOverlay (classListRemove w' c s) w \<Longrightarrow> hasOverlay s w"
  by (rule hasOverlay_shrinks[OF shrinking_removeClass, of _ _ w' c])
     (simp_all add: classListRemove_def emit_def)

lemma hasOverlay_removeOverlayChildren:
  "hasOverlay (removeOverlayChildren w' s) w \<Longrightarrow> hasOverlay s w"
  by (rule hasOverlay_shrinks[OF shrinking_filterChildren, of _ _ w'
        "\<lambda>k. \<not> isOverlay (uiClasses s) k"])
     (simp_all add: removeOverlayChildren_def Let_def)

lemma hasOverlay_clearWidgetUI_other:
  "hasOverlay (clearWidgetUI w' s) w \<Longrightarrow> hasOverlay s w"
proof -
  let ?s1 = "classListRemove w' (OUTLINE (uiClasses s)) s"
  let ?s2 = "removeOverlayChildren w' ?s1"
  assume "hasOverlay (clearWidgetUI w' s) w"
  then have "hasOverlay ?s2 w"
    by (simp add: clearWidgetUI_def hasOverlay_def setWidgetState_def Let_def)
  then have "hasOverlay ?s1 w" by (rule hasOverlay_removeOverlayChildren)
  then show ?thesis by (rule hasOverlay_classListRemove)
qed

lemma hasOverlay_iff:
  "hasOverlay s w \<longleftrightarrow>
     (\<exists>n \<in> set (allElements (document s)). nid n = w \<and> nodeOverlay (uiClasses s) n)"
  by (simp add: hasOverlay_def list_ex_iff)

lemma removeClass_at:
  "nid n = w \<Longrightarrow>
   classList (mapTree (atElement w (\<lambda>n. setClassList (removeAll c (classList n)) n)) n)
     = removeAll c (classList n)"
  by (cases n) (simp add: atElement_def)

lemma filterChildren_at:
  "nid n = w \<Longrightarrow>
   classList (mapTree (atElement w (\<lambda>n. setChildNodes (filter P (childNodes n)) n)) n)
     = classList n
   \<and> set (childNodes (mapTree (atElement w (\<lambda>n. setChildNodes (filter P (childNodes n)) n)) n))
     \<subseteq> Collect P"
  by (cases n) (auto simp: atElement_def)

lemma clearWidgetUI_document:
  "document (clearWidgetUI w s) =
     mapDocument (atElement w (\<lambda>n. setChildNodes
               (filter (\<lambda>k. \<not> isOverlay (uiClasses s) k) (childNodes n)) n))
       (mapDocument (atElement w (\<lambda>n. setClassList (removeAll (OUTLINE (uiClasses s)) (classList n)) n))
          (document s))"
  by (simp add: clearWidgetUI_def setWidgetState_def removeOverlayChildren_def
      classListRemove_def emit_def Let_def)

lemma no_overlay_after_clearWidgetUI: "\<not> hasOverlay (clearWidgetUI w s) w"
proof
  let ?f1 = "atElement w (\<lambda>n. setClassList (removeAll (OUTLINE (uiClasses s)) (classList n)) n)"
  let ?f2 = "atElement w (\<lambda>n. setChildNodes
               (filter (\<lambda>k. \<not> isOverlay (uiClasses s) k) (childNodes n)) n)"
  let ?d1 = "mapDocument ?f1 (document s)"
  assume "hasOverlay (clearWidgetUI w s) w"
  then obtain n2 where n2: "n2 \<in> set (allElements (mapDocument ?f2 ?d1))" "nid n2 = w"
    "nodeOverlay (uiClasses s) n2"
    by (auto simp: hasOverlay_iff clearWidgetUI_document uiClasses_clearWidgetUI)
  from n2(1) allElements_mapDocument[OF shrinking_filterChildren, of w _ ?d1] obtain n1 where
    n1: "n1 \<in> set (allElements ?d1)" "n2 = mapTree ?f2 n1" by blast
  have w1: "nid n1 = w"
    using n2(2) n1(2) mapTree_shrinks(1)[OF shrinking_filterChildren, of w _ n1] by simp
  from n1(1) allElements_mapDocument[OF shrinking_removeClass, of w _ "document s"] obtain n0 where
    n0: "n0 \<in> set (allElements (document s))" "n1 = mapTree ?f1 n0" by blast
  have w0: "nid n0 = w"
    using w1 n0(2) mapTree_shrinks(1)[OF shrinking_removeClass, of w _ n0] by simp
  have "classList n1 = removeAll (OUTLINE (uiClasses s)) (classList n0)"
    unfolding n0(2) using w0 by (rule removeClass_at)
  then have c1: "OUTLINE (uiClasses s) \<notin> set (classList n1)" by simp
  from filterChildren_at[OF w1, of "\<lambda>k. \<not> isOverlay (uiClasses s) k"]
  have "classList n2 = classList n1"
    and "\<forall>k \<in> set (childNodes n2). \<not> isOverlay (uiClasses s) k"
    unfolding n1(2) by auto
  with c1 have "\<not> nodeOverlay (uiClasses s) n2" by (simp add: nodeOverlay_def list_ex_iff)
  with n2(3) show False by simp
qed

lemma mapTree_id: "(\<And>n. n \<in> set (flatten t) \<Longrightarrow> f n = n) \<Longrightarrow> mapTree f t = t"
proof (induction t)
  case (Element a t i c m h ks)
  have "map (mapTree f) ks = ks"
  proof (rule map_idI)
    fix k assume k: "k \<in> set ks"
    show "mapTree f k = k"
    proof (rule Element.IH[OF k])
      fix n assume "n \<in> set (flatten k)"
      with k have "n \<in> set (flatten (Element a t i c m h ks))" by auto
      then show "f n = n" by (rule Element.prems)
    qed
  qed
  moreover have "f (Element a t i c m h ks) = Element a t i c m h ks"
    by (rule Element.prems) simp
  ultimately show ?case by simp
qed

lemma mapDocument_id:
  "(\<And>n. n \<in> set (allElements d) \<Longrightarrow> f n = n) \<Longrightarrow> mapDocument f d = d"
  by (simp add: mapDocument_def allElements_def mapTree_id)

lemma setClassList_same: "setClassList (classList n) n = n"
  by (cases n) simp

lemma setChildNodes_same: "setChildNodes (childNodes n) n = n"
  by (cases n) simp

lemma clearWidgetUI_without_overlay:
  assumes "\<not> hasOverlay s w"
  shows "document (clearWidgetUI w s) = document s"
proof -
  let ?f1 = "atElement w (\<lambda>n. setClassList (removeAll (OUTLINE (uiClasses s)) (classList n)) n)"
  let ?f2 = "atElement w (\<lambda>n. setChildNodes
               (filter (\<lambda>k. \<not> isOverlay (uiClasses s) k) (childNodes n)) n)"
  have no: "\<And>n. n \<in> set (allElements (document s)) \<Longrightarrow> nid n = w \<Longrightarrow>
      OUTLINE (uiClasses s) \<notin> set (classList n)
      \<and> (\<forall>k \<in> set (childNodes n). \<not> isOverlay (uiClasses s) k)"
    using assms by (auto simp: hasOverlay_iff nodeOverlay_def list_ex_iff)
  have 1: "mapDocument ?f1 (document s) = document s"
  proof (rule mapDocument_id)
    fix n assume "n \<in> set (allElements (document s))"
    with no[of n] show "?f1 n = n"
      by (simp add: atElement_def setClassList_same)
  qed
  have 2: "mapDocument ?f2 (document s) = document s"
  proof (rule mapDocument_id)
    fix n assume "n \<in> set (allElements (document s))"
    with no[of n] show "?f2 n = n"
      by (simp add: atElement_def setChildNodes_same)
  qed
  show ?thesis by (simp add: clearWidgetUI_document 1 2)
qed

section \<open>Lemmas about failing audits\<close>

lemma emits_nil: "emits [] s = s"
  by (simp add: emits_def)

lemma emits_emits: "emits ys (emits xs s) = emits (xs @ ys) s"
  by (simp add: emits_def)

lemma emit_emits: "emit e s = emits [e] s"
  by (simp add: emit_def emits_def)

lemma cleared_emits: "cleared ws (emits evs s) = cleared ws s"
  by (simp add: cleared_def emits_def getWidgetState_def hasOverlay_def)

lemma cleared_clearWidgetUI: "cleared ws s \<Longrightarrow> cleared ws (clearWidgetUI w s)"
  unfolding cleared_def list_all_iff
  using hasOverlay_clearWidgetUI_other[of w s] by (auto simp: getWidgetState_clearWidgetUI)

lemma cleared_fold_clearWidgetUI:
  "cleared vs s \<Longrightarrow> cleared (vs @ ws) (fold clearWidgetUI ws s)"
proof (induction ws arbitrary: vs s)
  case Nil
  then show ?case by simp
next
  case (Cons w ws)
  have "cleared (vs @ [w]) (clearWidgetUI w s)"
    using cleared_clearWidgetUI[OF Cons.prems, of w] no_overlay_after_clearWidgetUI[of w s]
    by (simp add: cleared_def getWidgetState_clearWidgetUI)
  from Cons.IH[OF this] show ?case by simp
qed

lemma callRenderWidgetUI_skip:
  assumes "renderSkips w vs s"
  shows "callRenderWidgetUI H w vs s = (None, s)"
proof -
  have "renderRejected H w vs s = None"
    using assms by (simp add: renderRejected_def renderSkips_def Let_def)
  with renderWidgetUI_skip[OF assms] show ?thesis by (simp add: callRenderWidgetUI_def)
qed

lemma render_empty_when_cleared:
  "cleared ws s \<Longrightarrow> forEach (\<lambda>w. callRenderWidgetUI H w []) ws s = (None, s)"
proof (induction ws)
  case Nil
  then show ?case by simp
next
  case (Cons w ws)
  then have "renderSkips w [] s" by (simp add: cleared_def renderSkips_def)
  then have "callRenderWidgetUI H w [] s = (None, s)" by (rule callRenderWidgetUI_skip)
  with Cons show ?case by (simp add: cleared_def)
qed

lemma debugLogging_emits: "debugLogging (emits evs s) = debugLogging s"
  by (simp add: debugLogging_def emits_def theConfig_def)

lemma axeOptions_emits: "axeOptions (emits evs s) = axeOptions s"
  by (rule axeOptions_eq) (simp_all add: emits_def theConfig_def)

lemma theConfig_emits: "theConfig (emits evs s) = theConfig s"
  by (simp add: emits_def theConfig_def)

lemma giveUp_when_cleared:
  "cleared ws s \<Longrightarrow>
   giveUp H ws s = (None, emits (if debugLogging s then [ConsoleWarn] else []) s)"
  by (simp add: giveUp_def render_empty_when_cleared emit_emits cleared_emits emits_nil)

lemma tryAudit_fails:
  "axeRun H (axeCalls s) = Inl e \<Longrightarrow>
   tryAudit H ws s = (Some e, emits [AxeRunCall (axeOptions s)] s)"
  by (simp add: tryAudit_def Let_def emit_emits)

lemma auditLoop_always_failing:
  assumes "\<forall>k. \<exists>e. axeRun H k = Inl e"
  shows "maxRetries (theConfig s) = Some m \<Longrightarrow> a + n = m \<Longrightarrow> cleared ws s \<Longrightarrow>
     auditLoop H ws a s = (None, emits (failingRun (axeOptions s) n (debugLogging s)) s)"
proof (induction n arbitrary: a s)
  case 0
  from assms obtain e where e: "axeRun H (axeCalls s) = Inl e" by blast
  let ?s1 = "emits [AxeRunCall (axeOptions s)] s"
  have w: "withinRetries a s" using 0 by (simp add: withinRetries_def)
  have b: "beyondRetries (Suc a) ?s1" using 0 by (simp add: beyondRetries_def theConfig_emits)
  have c: "cleared ws ?s1" using 0 by (simp add: cleared_emits)
  let ?g = "emits (if debugLogging s then [ConsoleWarn] else []) ?s1"
  have g: "giveUp H ws ?s1 = (None, ?g)"
    using giveUp_when_cleared[OF c, of H] by (simp add: debugLogging_emits)
  have n: "\<not> withinRetries (Suc a) ?g"
    using 0 by (simp add: withinRetries_def theConfig_emits)
  have "auditLoop H ws a s = auditLoop H ws (Suc a) ?g"
    using w b g by (simp add: auditLoop.simps[of H ws a s] tryAudit_fails[OF e])
  also have "\<dots> = (None, ?g)"
    using n by (simp add: auditLoop.simps[of H ws "Suc a"])
  finally show ?case by (simp add: emits_emits failingRun_def)
next
  case (Suc n)
  from assms obtain e where e: "axeRun H (axeCalls s) = Inl e" by blast
  let ?s1 = "emits [AxeRunCall (axeOptions s)] s"
  let ?s2 = "emit (Pause 50) ?s1"
  have s2: "?s2 = emits [AxeRunCall (axeOptions s), Pause 50] s"
    by (simp add: emit_emits emits_emits)
  have w: "withinRetries a s" using Suc.prems by (simp add: withinRetries_def)
  have b: "\<not> beyondRetries (Suc a) ?s1"
    using Suc.prems by (simp add: beyondRetries_def theConfig_emits)
  have "auditLoop H ws a s = auditLoop H ws (Suc a) ?s2"
    using w b by (simp add: auditLoop.simps[of H ws a s] tryAudit_fails[OF e])
  also have "\<dots> = (None, emits (failingRun (axeOptions ?s2) n (debugLogging ?s2)) ?s2)"
    using Suc.prems by (intro Suc.IH) (simp_all add: s2 theConfig_emits cleared_emits)
  finally show ?case
    by (simp add: s2 axeOptions_emits debugLogging_emits emits_emits failingRun_def)
qed

lemma domWrite_not_axeRun: "isDomWrite e \<Longrightarrow> \<not> isAxeRun e"
  by (cases e) simp_all

lemma axeCalls_inner:
  assumes "inner (\<lambda>e. False) s s'"
  shows "axeCalls s' = axeCalls s"
proof -
  from inner_effects[OF assms] obtain ev where
    ev: "effects s' = effects s @ ev" "\<forall>e \<in> set ev. isDomWrite e" by auto
  then have "filter isAxeRun ev = []"
    by (auto simp: filter_empty_conv domWrite_not_axeRun)
  with ev(1) show ?thesis by (simp add: axeCalls_def)
qed

lemma axeCalls_failingRun:
  "length (filter isAxeRun (failingRun opts n debug)) = Suc n"
  by (induction n) (simp_all add: failingRun_def)

lemma recheckAll_start:
  "sameSetup (emit RecheckAllEntered s) (fold clearWidgetUI ws (injectCSS (emit RecheckAllEntered s)))
   \<and> axeCalls (fold clearWidgetUI ws (injectCSS (emit RecheckAllEntered s))) = axeCalls s
   \<and> cleared ws (fold clearWidgetUI ws (injectCSS (emit RecheckAllEntered s)))"
proof -
  let ?s0 = "emit RecheckAllEntered s"
  let ?s1 = "injectCSS ?s0"
  let ?s2 = "fold clearWidgetUI ws ?s1"
  have i: "\<And>P. inner P ?s0 ?s2"
    using inner_css inner_fold_clear inner_trans by blast
  have "axeCalls ?s2 = axeCalls ?s0" using i by (rule axeCalls_inner)
  moreover have "axeCalls ?s0 = axeCalls s" by (simp add: axeCalls_def emit_def)
  moreover have "sameSetup ?s0 ?s2" using i by (rule inner_sameSetup)
  moreover have "cleared ws ?s2"
    using cleared_fold_clearWidgetUI[of "[]" ?s1 ws] by (simp add: cleared_def)
  ultimately show ?thesis by simp
qed

lemma not_whitespace: "nameChar c \<Longrightarrow> \<not> asciiWhitespace c"
  by (auto simp: nameChar_def nameStart_def asciiWhitespace_def)

lemma plainName_token: "plainName c \<Longrightarrow> tokenError c = None"
proof (cases c)
  case Nil
  assume "plainName c"
  with Nil show ?thesis by simp
next
  case (Cons x xs)
  assume "plainName c"
  with Cons have "list_all nameChar (x # xs)" by (simp add: nameChar_def)
  then have "\<not> list_ex asciiWhitespace (x # xs)"
    unfolding list_all_iff list_ex_iff using not_whitespace by blast
  with Cons show ?thesis by (simp add: tokenError_def)
qed

lemma usableClasses_accepted: "usableClasses H u \<Longrightarrow> domAccepts H u"
  by (simp add: usableClasses_def domAccepts_def plainName_token)

lemma clearRejected_accepted: "domAccepts H (uiClasses s) \<Longrightarrow> clearRejected H w s = None"
  by (simp add: clearRejected_def domAccepts_def)

lemma forEach_clear_accepted:
  "domAccepts H (uiClasses s) \<Longrightarrow>
   forEach (callClearWidgetUI H) ws s = (None, fold clearWidgetUI ws s)"
proof (induction ws arbitrary: s)
  case Nil
  then show ?case by simp
next
  case (Cons w ws)
  have "domAccepts H (uiClasses (clearWidgetUI w s))"
    using Cons.prems by (simp add: uiClasses_clearWidgetUI)
  from Cons.IH[OF this] clearRejected_accepted[OF Cons.prems, of w] show ?case
    by (simp add: callClearWidgetUI_def)
qed

lemma forEach_clear_rejected:
  "ws \<noteq> [] \<Longrightarrow> clearRejected H (hd ws) s = Some (e, s') \<Longrightarrow>
   forEach (callClearWidgetUI H) ws s = (Some e, s')"
  by (cases ws) (simp_all add: callClearWidgetUI_def)

lemma uiClasses_injectCSS: "uiClasses (injectCSS s) = uiClasses s"
  using sameSetup_injectCSS[of s] by (simp add: sameSetup_def)

lemma clearRejected_inner: "clearRejected H w s = Some (e, s') \<Longrightarrow> inner P s s'"
  by (auto simp: clearRejected_def intro: inner_refl inner_unmark split: option.splits if_splits)

lemma recheckAll_rejected:
  assumes "getAllWidgets H (injectCSS (emit RecheckAllEntered s)) = Inr ws" and "ws \<noteq> []"
    and "clearRejected H (hd ws) (injectCSS (emit RecheckAllEntered s)) = Some (e, s')"
  shows "recheckAll H s = (Some e, s')" and "axeCalls s' = axeCalls s"
proof -
  let ?s0 = "emit RecheckAllEntered s"
  let ?s1 = "injectCSS ?s0"
  have "forEach (callClearWidgetUI H) ws ?s1 = (Some e, s')"
    using assms(2,3) by (rule forEach_clear_rejected)
  with assms(1,2) show "recheckAll H s = (Some e, s')"
    by (simp add: recheckAll_def Let_def)
  have "inner (\<lambda>e. False) ?s0 s'"
    using inner_css[of "\<lambda>e. False" ?s0] clearRejected_inner[OF assms(3), of "\<lambda>e. False"]
    by (rule inner_trans)
  then have "axeCalls s' = axeCalls ?s0" by (rule axeCalls_inner)
  then show "axeCalls s' = axeCalls s" by (simp add: axeCalls_def emit_def)
qed

lemma hasOverlay_injectCSS: "hasOverlay (injectCSS s) w = hasOverlay s w"
proof (cases "getElementById (document s) ''wa11y-style'' \<noteq> None")
  case True
  then show ?thesis by (simp add: injectCSS_def)
next
  case False
  obtain a t i c m h ks where hd: "head (document s) = Element a t i c m h ks"
    by (cases "head (document s)")
  have u: "uiClasses (injectCSS s) = uiClasses s"
    using sameSetup_injectCSS[of s] by (simp add: sameSetup_def)
  have d: "allElements (document (injectCSS s)) =
     Element a t i c m h (ks @ [Element (nextElem s) ''style'' ''wa11y-style'' []
        (StyleMarkup [OUTLINE (uiClasses s), BADGE (uiClasses s), POPUP (uiClasses s),
                      CLOSE (uiClasses s)]
           (case customCSS (theConfig s) of Some css \<Rightarrow> css | None \<Rightarrow> [])) None []])
     # concat (map flatten ks)
     @ [Element (nextElem s) ''style'' ''wa11y-style'' []
        (StyleMarkup [OUTLINE (uiClasses s), BADGE (uiClasses s), POPUP (uiClasses s),
                      CLOSE (uiClasses s)]
           (case customCSS (theConfig s) of Some css \<Rightarrow> css | None \<Rightarrow> [])) None []]
     @ flatten (body (document s))"
    using False by (simp add: injectCSS_def Let_def emit_def allElements_def hd)
  have d0: "allElements (document s) =
     Element a t i c m h ks # concat (map flatten ks) @ flatten (body (document s))"
    by (simp add: allElements_def hd)
  show ?thesis
    unfolding hasOverlay_def u d d0
    by (simp add: nodeOverlay_def isOverlay_def)
qed

lemma injectCSS_frame:
  "widgetCache (injectCSS s) = widgetCache s \<and> body (document (injectCSS s)) = body (document s)
   \<and> axeCalls (injectCSS s) = axeCalls s"
  by (simp add: injectCSS_def Let_def emit_def axeCalls_def)

lemma demoRendered_is_reached:
  "document (snd (recheckAll demoAxeHost demoValidator)) = document demoRendered
   \<and> clickListeners (snd (recheckAll demoAxeHost demoValidator)) = clickListeners demoRendered"
  by code_simp

section \<open>Lemmas about attribution\<close>

lemma nodeInWidget_Inr: "nodeInWidget H d w n = Inr b \<Longrightarrow> b = resolvesInto H d w n"
  by (auto simp: nodeInWidget_def resolvesInto_def split: option.splits sum.splits)

lemma querySelector_valid: "selectorValid H sel \<Longrightarrow> \<exists>r. querySelector H d sel = Inr r"
  by (simp add: querySelector_def querySelectorAll_def split: list.splits)

lemma nodeInWidget_usable: "usableTarget H n \<Longrightarrow> \<exists>b. nodeInWidget H d w n = Inr b"
proof (cases "target n")
  case None
  then show ?thesis by (auto simp: nodeInWidget_def)
next
  case (Some t)
  assume "usableTarget H n"
  with Some have "selectorValid H (join '' '' t)" by (simp add: usableTarget_def)
  from querySelector_valid[OF this, of d] obtain r where "querySelector H d (join '' '' t) = Inr r"
    by blast
  with Some show ?thesis by (cases r) (auto simp: nodeInWidget_def)
qed

lemma someNode_Inr: "someNode H d w ns = Inr b \<Longrightarrow> b = list_ex (resolvesInto H d w) ns"
proof (induction ns)
  case Nil
  then show ?case by simp
next
  case (Cons n ns)
  show ?case
  proof (cases "nodeInWidget H d w n")
    case (Inl e)
    with Cons.prems show ?thesis by simp
  next
    case (Inr c)
    with Cons show ?thesis
      using nodeInWidget_Inr[OF Inr] by (cases c) simp_all
  qed
qed

lemma someNode_usable: "list_all (usableTarget H) ns \<Longrightarrow> \<exists>b. someNode H d w ns = Inr b"
proof (induction ns)
  case Nil
  then show ?case by auto
next
  case (Cons n ns)
  then obtain c where c: "nodeInWidget H d w n = Inr c"
    using nodeInWidget_usable[of H n d w] by auto
  from Cons obtain b where "someNode H d w ns = Inr b" by auto
  with c show ?case by (cases c) auto
qed

lemma widgetViolations_Inr:
  "widgetViolations H d w vs = Inr r \<Longrightarrow> r = filter (attributed H d w) vs"
proof (induction vs arbitrary: r)
  case Nil
  then show ?case by simp
next
  case (Cons v vs)
  from Cons.prems obtain keep r' where k: "someNode H d w (nodes v) = Inr keep"
    and r': "widgetViolations H d w vs = Inr r'" and r: "r = (if keep then v # r' else r')"
    by (auto split: sum.splits)
  from someNode_Inr[OF k] have "keep = attributed H d w v" by (simp add: attributed_def)
  with Cons.IH[OF r'] r show ?case by simp
qed

lemma widgetViolations_usable:
  "usableTargets H vs \<Longrightarrow> \<exists>r. widgetViolations H d w vs = Inr r"
proof (induction vs)
  case Nil
  then show ?case by simp
next
  case (Cons v vs)
  then obtain keep where "someNode H d w (nodes v) = Inr keep"
    using someNode_usable[of H "nodes v" d w] by (auto simp: usableTargets_def)
  moreover from Cons obtain r where "widgetViolations H d w vs = Inr r"
    by (auto simp: usableTargets_def)
  ultimately show ?case by simp
qed

lemma resolvesInto_iff:
  "resolvesInto H d w n \<longleftrightarrow>
     (\<exists>t element. target n = Some t
        \<and> querySelector H d (join '' '' t) = Inr (Some element) \<and> contains d w element)"
proof (cases "target n")
  case None
  then show ?thesis by (simp add: resolvesInto_def)
next
  case (Some t)
  show ?thesis
  proof (cases "querySelector H d (join '' '' t)")
    case (Inl e)
    with Some show ?thesis by (simp add: resolvesInto_def)
  next
    case (Inr r)
    with Some show ?thesis by (cases r) (simp_all add: resolvesInto_def)
  qed
qed

lemma attributed_iff:
  "attributed H d w v \<longleftrightarrow>
     (\<exists>n \<in> set (nodes v). \<exists>t element. target n = Some t
        \<and> querySelector H d (join '' '' t) = Inr (Some element) \<and> contains d w element)"
  by (simp add: attributed_def list_ex_iff resolvesInto_iff)

lemma demo_attribution:
  "usableTargets demoHost [imageAlt, linkName, twoCards, noElement]"
  "map (attributed demoHost demoDocument 2) [imageAlt, linkName, twoCards, noElement]
     = [True, False, True, False]"
  "map (attributed demoHost demoDocument 4) [imageAlt, linkName, twoCards, noElement]
     = [False, True, True, False]"
  by code_simp+

section \<open>Lemmas about selectors\<close>

lemma getCombinedSelector_cong:
  "config s' = config s \<Longrightarrow> objects s' = objects s \<Longrightarrow> arrays s' = arrays s \<Longrightarrow>
   getCombinedSelector s' = getCombinedSelector s"
  by (simp add: getCombinedSelector_def theConfig_def)

lemma getAllWidgets_no_selectors:
  "arrays s (widgetSelectors (theConfig s)) = [] \<Longrightarrow> \<not> selectorValid H [] \<Longrightarrow>
   getAllWidgets H s = Inl SyntaxError"
  by (simp add: getAllWidgets_def getCombinedSelector_def querySelectorAll_def)

section \<open>Lemmas about timers\<close>

lemma sameSetup_recheckAll: "sameSetup (emit RecheckAllEntered s) (snd (recheckAll H s))"
  by (rule inner_sameSetup) (rule inner_recheckAll)

lemma recheckAll_frame:
  "timers (snd (recheckAll H s)) = timers s
   \<and> recheckTimeout (snd (recheckAll H s)) = recheckTimeout s
   \<and> clock (snd (recheckAll H s)) = clock s
   \<and> nextTimer (snd (recheckAll H s)) = nextTimer s
   \<and> config (snd (recheckAll H s)) = config s
   \<and> objects (snd (recheckAll H s)) = objects s
   \<and> arrays (snd (recheckAll H s)) = arrays s
   \<and> audits (snd (recheckAll H s)) = Suc (audits s)"
  using sameSetup_recheckAll[of s H] by (simp add: sameSetup_def emit_def audits_def)

lemma pendingInvariant_cong:
  "timers s' = timers s \<Longrightarrow> recheckTimeout s' = recheckTimeout s \<Longrightarrow>
   pendingInvariant s \<Longrightarrow> pendingInvariant s'"
  by (simp add: pendingInvariant_def)

lemma pendingInvariant_recheckAll:
  "pendingInvariant s \<Longrightarrow> pendingInvariant (snd (recheckAll H s))"
  using recheckAll_frame[of H s] by (simp add: pendingInvariant_def)

lemma clearTimeout_stored:
  "pendingInvariant s \<Longrightarrow> recheckTimeout s = Some t \<Longrightarrow> timers (clearTimeout t s) = []"
  by (auto simp: pendingInvariant_def clearTimeout_def emit_def filter_empty_conv)

lemma timers_none_stored:
  "pendingInvariant s \<Longrightarrow> recheckTimeout s = None \<Longrightarrow> timers s = []"
  by (cases "timers s") (auto simp: pendingInvariant_def)

lemma effectiveDelay_cong:
  "config s' = config s \<Longrightarrow> objects s' = objects s \<Longrightarrow> effectiveDelay d s' = effectiveDelay d s"
  by (cases d) (simp_all add: effectiveDelay_def theConfig_def)

lemma audits_advance_start: "audits (s\<lparr> clock := c, timers := ts \<rparr>) = audits s"
  by (simp add: audits_def)

lemma debounceRecheck_timers:
  assumes "pendingInvariant s"
  shows "timers (debounceRecheck d s) = [(nextTimer s, clock s + effectiveDelay d s)]
     \<and> recheckTimeout (debounceRecheck d s) = Some (nextTimer s)"
proof (cases "recheckTimeout s")
  case None
  with assms have "timers s = []" by (simp add: timers_none_stored)
  with None show ?thesis
    by (simp add: debounceRecheck_def setTimeout_def Let_def emit_def)
next
  case (Some t)
  with assms have "timers (clearTimeout t s) = []" by (simp add: clearTimeout_stored)
  moreover have "clock (clearTimeout t s) = clock s" "nextTimer (clearTimeout t s) = nextTimer s"
    by (simp_all add: clearTimeout_def emit_def)
  moreover have "effectiveDelay d (clearTimeout t s) = effectiveDelay d s"
    by (rule effectiveDelay_cong) (simp_all add: clearTimeout_def emit_def)
  ultimately show ?thesis
    using Some by (simp add: debounceRecheck_def setTimeout_def Let_def emit_def)
qed

lemma debounceRecheck_frame:
  "config (debounceRecheck d s) = config s \<and> objects (debounceRecheck d s) = objects s
   \<and> audits (debounceRecheck d s) = audits s \<and> clock (debounceRecheck d s) = clock s"
  by (simp add: debounceRecheck_def setTimeout_def clearTimeout_def Let_def emit_def audits_def
      split: option.splits)

lemma effects_debounceRecheck:
  "effects (debounceRecheck d s) =
     effects s @ (case recheckTimeout s of Some t \<Rightarrow> [ClearTimeout t] | None \<Rightarrow> [])
       @ [SetTimeout (nextTimer s) (effectiveDelay d s)]"
proof (cases "recheckTimeout s")
  case None
  then show ?thesis
    by (simp add: debounceRecheck_def setTimeout_def Let_def emit_def)
next
  case (Some t)
  have "effectiveDelay d (clearTimeout t s) = effectiveDelay d s"
    by (rule effectiveDelay_cong) (simp_all add: clearTimeout_def emit_def)
  moreover have "nextTimer (clearTimeout t s) = nextTimer s"
    "effects (clearTimeout t s) = effects s @ [ClearTimeout t]"
    by (simp_all add: clearTimeout_def emit_def)
  ultimately show ?thesis
    using Some by (simp add: debounceRecheck_def setTimeout_def Let_def emit_def)
qed

lemma pendingInvariant_debounceRecheck:
  "pendingInvariant s \<Longrightarrow> pendingInvariant (debounceRecheck d s)"
  using debounceRecheck_timers[of s d] by (simp add: pendingInvariant_def)

lemma fold_recheckAll_frame:
  "timers (fold (\<lambda>timer st. snd (recheckAll H st)) due s) = timers s
   \<and> recheckTimeout (fold (\<lambda>timer st. snd (recheckAll H st)) due s) = recheckTimeout s
   \<and> clock (fold (\<lambda>timer st. snd (recheckAll H st)) due s) = clock s
   \<and> config (fold (\<lambda>timer st. snd (recheckAll H st)) due s) = config s
   \<and> objects (fold (\<lambda>timer st. snd (recheckAll H st)) due s) = objects s
   \<and> audits (fold (\<lambda>timer st. snd (recheckAll H st)) due s) = audits s + length due"
  by (induction due arbitrary: s) (simp_all add: recheckAll_frame)

lemma advance_frame:
  "timers (advance H k s) = filter (\<lambda>(i, t). \<not> t \<le> clock s + k) (timers s)
   \<and> recheckTimeout (advance H k s) = recheckTimeout s
   \<and> clock (advance H k s) = clock s + k
   \<and> config (advance H k s) = config s
   \<and> objects (advance H k s) = objects s
   \<and> audits (advance H k s) = audits s + length (filter (\<lambda>(i, t). t \<le> clock s + k) (timers s))"
  by (simp add: advance_def Let_def fold_recheckAll_frame audits_advance_start)

lemma pendingInvariant_filter:
  "pendingInvariant s \<Longrightarrow> timers s' = filter P (timers s) \<Longrightarrow>
   recheckTimeout s' = recheckTimeout s \<Longrightarrow> pendingInvariant s'"
  unfolding pendingInvariant_def
  by (metis filter_is_subset le_trans length_filter_le subsetD)

lemma pendingInvariant_advance: "pendingInvariant s \<Longrightarrow> pendingInvariant (advance H k s)"
  using advance_frame[of H k s] pendingInvariant_filter by blast

lemma sameSetup_clearAll: "sameSetup s (snd (clearAll H s))"
proof (cases "getAllWidgets H s")
  case (Inl e)
  then show ?thesis by (simp add: clearAll_def sameSetup_refl)
next
  case (Inr ws)
  have "inner isAuditEvent s (snd (forEach (callClearWidgetUI H) ws s))"
    by (rule inner_forEach_clear)
  with Inr show ?thesis by (simp add: clearAll_def inner_sameSetup)
qed

lemma timers_fold:
  "(\<And>x t. timers (f x t) = timers t \<and> recheckTimeout (f x t) = recheckTimeout t) \<Longrightarrow>
   timers (fold f xs s) = timers s \<and> recheckTimeout (fold f xs s) = recheckTimeout s"
  by (induction xs arbitrary: s) simp_all

lemma destroy_timers:
  "recheckTimeout (snd (destroy H s)) = recheckTimeout s
   \<and> timers (snd (destroy H s)) =
       (case recheckTimeout s of Some t \<Rightarrow> filter (\<lambda>(i, due). i \<noteq> t) (timers s)
        | None \<Rightarrow> timers s)"
proof -
  let ?s1 = "stopWatching s"
  let ?s2 = "case recheckTimeout ?s1 of Some t \<Rightarrow> clearTimeout t ?s1 | None \<Rightarrow> ?s1"
  have 1: "recheckTimeout ?s1 = recheckTimeout s" "timers ?s1 = timers s"
    by (simp_all add: stopWatching_def emit_def)
  have 2: "recheckTimeout ?s2 = recheckTimeout s"
    "timers ?s2 = (case recheckTimeout s of Some t \<Rightarrow> filter (\<lambda>(i, due). i \<noteq> t) (timers s)
        | None \<Rightarrow> timers s)"
    using 1 by (simp_all add: clearTimeout_def emit_def split: option.splits)
  obtain x s3 where cl: "clearAll H ?s2 = (x, s3)" by (metis surj_pair)
  have 3: "recheckTimeout s3 = recheckTimeout ?s2" "timers s3 = timers ?s2"
    using sameSetup_clearAll[of ?s2 H] cl by (simp_all add: sameSetup_def)
  show ?thesis
  proof (cases x)
    case (Some e)
    with cl 2 3 show ?thesis by (simp add: destroy_def Let_def)
  next
    case None
    show ?thesis
    proof (cases "querySelectorAll H (document s3) (popupSelector (uiClasses s3))")
      case (Inl e)
      with cl None 2 3 show ?thesis by (simp add: destroy_def Let_def)
    next
      case (Inr found)
      let ?s4 = "fold detachHandler (filter (\<lambda>n. nid n \<in> set found)
                               (allElements (document s3))) s3"
      have d: "\<And>x t. timers (detachHandler x t) = timers t
                   \<and> recheckTimeout (detachHandler x t) = recheckTimeout t"
        by (simp add: detachHandler_def emit_def split: option.splits)
      have 4: "timers ?s4 = timers s3 \<and> recheckTimeout ?s4 = recheckTimeout s3"
        by (rule timers_fold) (rule d)
      have 5: "timers (removeStyle ?s4) = timers ?s4"
        "recheckTimeout (removeStyle ?s4) = recheckTimeout ?s4"
        by (simp_all add: removeStyle_def emit_def split: option.splits)
      from cl None Inr 2 3 4 5 show ?thesis by (simp add: destroy_def Let_def)
    qed
  qed
qed

lemma pendingInvariant_destroy: "pendingInvariant s \<Longrightarrow> pendingInvariant (snd (destroy H s))"
proof (cases "recheckTimeout s")
  case None
  assume "pendingInvariant s"
  with None destroy_timers[of H s] show ?thesis by (simp add: pendingInvariant_def)
next
  case (Some t)
  assume "pendingInvariant s"
  with Some destroy_timers[of H s] show ?thesis
    using pendingInvariant_filter[of s "snd (destroy H s)" "\<lambda>(i, due). i \<noteq> t"] by simp
qed

lemma pendingInvariant_step: "pendingInvariant s \<Longrightarrow> pendingInvariant (step H act s)"
proof (cases act)
  case RecheckAll
  assume "pendingInvariant s"
  with RecheckAll show ?thesis by (simp add: pendingInvariant_recheckAll)
next
  case (DebounceRecheck d)
  assume "pendingInvariant s"
  with DebounceRecheck show ?thesis by (simp add: pendingInvariant_debounceRecheck)
next
  case StartWatching
  assume "pendingInvariant s"
  with StartWatching show ?thesis
    by (simp add: pendingInvariant_def startWatching_def setupMutationObserver_def emit_def)
next
  case StopWatching
  assume "pendingInvariant s"
  with StopWatching show ?thesis
    by (simp add: pendingInvariant_def stopWatching_def emit_def)
next
  case ClearAll
  assume "pendingInvariant s"
  with ClearAll sameSetup_clearAll[of s H] show ?thesis
    by (simp add: pendingInvariant_def sameSetup_def)
next
  case (AddSelectors sels)
  assume "pendingInvariant s"
  with AddSelectors show ?thesis
    by (simp add: pendingInvariant_def addSelectors_def Let_def recheckAll_frame)
next
  case (RemoveSelectors sels)
  assume "pendingInvariant s"
  with RemoveSelectors show ?thesis
    by (simp add: pendingInvariant_def removeSelectors_def Let_def recheckAll_frame)
next
  case (UpdateConfig n)
  assume "pendingInvariant s"
  with UpdateConfig show ?thesis
    by (simp add: pendingInvariant_def updateConfig_def Let_def recheckAll_frame
        split: key.splits)
next
  case GetConfig
  assume "pendingInvariant s"
  with GetConfig show ?thesis by (simp add: pendingInvariant_def getConfig_def)
next
  case Destroy
  assume "pendingInvariant s"
  with Destroy show ?thesis by (simp add: pendingInvariant_destroy)
next
  case (Advance k)
  assume "pendingInvariant s"
  with Advance show ?thesis by (simp add: pendingInvariant_advance)
next
  case (PageEdit f)
  assume "pendingInvariant s"
  with PageEdit show ?thesis by (simp add: pendingInvariant_def)
next
  case (ArrayEdit r xs)
  assume "pendingInvariant s"
  with ArrayEdit show ?thesis by (simp add: pendingInvariant_def)
qed

lemma pendingInvariant_run: "pendingInvariant s \<Longrightarrow> pendingInvariant (run H acts s)"
  unfolding run_def by (induction acts arbitrary: s) (simp_all add: pendingInvariant_step)

lemma pendingInvariant_constructed: "constructed s \<Longrightarrow> pendingInvariant s"
  by (simp add: constructed_def pendingInvariant_def)

lemma quiet_request:
  assumes "pendingInvariant s" and "g < effectiveDelay d s"
  shows "pendingInvariant (advance H g (debounceRecheck d s))
     \<and> audits (advance H g (debounceRecheck d s)) = audits s
     \<and> config (advance H g (debounceRecheck d s)) = config s
     \<and> objects (advance H g (debounceRecheck d s)) = objects s"
proof -
  let ?s1 = "debounceRecheck d s"
  have t: "timers ?s1 = [(nextTimer s, clock s + effectiveDelay d s)]"
    using debounceRecheck_timers[OF assms(1)] by simp
  have c: "clock ?s1 = clock s" by (simp add: debounceRecheck_frame)
  have "filter (\<lambda>(i, t). t \<le> clock ?s1 + g) (timers ?s1) = []"
    using assms(2) by (simp add: t c)
  then have "audits (advance H g ?s1) = audits ?s1"
    using advance_frame[of H g ?s1] by simp
  moreover have "pendingInvariant (advance H g ?s1)"
    by (simp add: pendingInvariant_advance pendingInvariant_debounceRecheck assms(1))
  ultimately show ?thesis
    using advance_frame[of H g ?s1] by (simp add: debounceRecheck_frame)
qed

lemma quiet_requests:
  "pendingInvariant s \<Longrightarrow> \<forall>(d, g) \<in> set reqs. g < effectiveDelay d s \<Longrightarrow>
   pendingInvariant (run H (concat (map (\<lambda>(d, g). [DebounceRecheck d, Advance g]) reqs)) s)
   \<and> audits (run H (concat (map (\<lambda>(d, g). [DebounceRecheck d, Advance g]) reqs)) s) = audits s
   \<and> config (run H (concat (map (\<lambda>(d, g). [DebounceRecheck d, Advance g]) reqs)) s) = config s
   \<and> objects (run H (concat (map (\<lambda>(d, g). [DebounceRecheck d, Advance g]) reqs)) s) = objects s"
proof (induction reqs arbitrary: s)
  case Nil
  then show ?case by (simp add: run_def)
next
  case (Cons r reqs)
  obtain d g where r: "r = (d, g)" by (cases r)
  let ?s = "advance H g (debounceRecheck d s)"
  have g: "g < effectiveDelay d s" using Cons.prems(2) r by simp
  note q = quiet_request[OF Cons.prems(1) g, of H]
  have "\<forall>(d, g) \<in> set reqs. g < effectiveDelay d ?s"
    using Cons.prems(2) q by (auto simp: effectiveDelay_cong[of ?s s])
  with q have "pendingInvariant (run H (concat (map (\<lambda>(d, g). [DebounceRecheck d, Advance g]) reqs)) ?s)
   \<and> audits (run H (concat (map (\<lambda>(d, g). [DebounceRecheck d, Advance g]) reqs)) ?s) = audits ?s
   \<and> config (run H (concat (map (\<lambda>(d, g). [DebounceRecheck d, Advance g]) reqs)) ?s) = config ?s
   \<and> objects (run H (concat (map (\<lambda>(d, g). [DebounceRecheck d, Advance g]) reqs)) ?s) = objects ?s"
    using Cons.IH[of ?s] by blast
  with q r show ?case by (simp add: run_def)
qed

lemma last_request_fires_once:
  assumes "pendingInvariant s" and "effectiveDelay d s \<le> T"
  shows "audits (advance H T (debounceRecheck d s)) = Suc (audits s)"
proof -
  let ?s1 = "debounceRecheck d s"
  have t: "timers ?s1 = [(nextTimer s, clock s + effectiveDelay d s)]"
    using debounceRecheck_timers[OF assms(1)] by simp
  have c: "clock ?s1 = clock s" by (simp add: debounceRecheck_frame)
  have "filter (\<lambda>(i, t). t \<le> clock ?s1 + T) (timers ?s1) = timers ?s1"
    using assms(2) by (simp add: t c)
  then have "audits (advance H T ?s1) = audits ?s1 + 1"
    using advance_frame[of H T ?s1] by (simp add: t)
  then show ?thesis by (simp add: debounceRecheck_frame)
qed

lemma run_append: "run H (as @ bs) s = run H bs (run H as s)"
  by (simp add: run_def)

section \<open>Lemmas about an audit with a failing engine\<close>

lemma domWrite_not_auditEvent: "isDomWrite e \<Longrightarrow> \<not> isAuditEvent e"
  by (cases e) simp_all

lemma auditEvents_failingRun:
  "filter isAuditEvent (failingRun opts n debug) = failingRun opts n debug"
  by (induction n) (simp_all add: failingRun_def)

lemma recheckAll_start_effects:
  "\<exists>dw. effects (fold clearWidgetUI ws (injectCSS (emit RecheckAllEntered s)))
           = effects s @ RecheckAllEntered # dw
        \<and> (\<forall>e \<in> set dw. isDomWrite e)"
proof -
  let ?s0 = "emit RecheckAllEntered s"
  let ?s2 = "fold clearWidgetUI ws (injectCSS ?s0)"
  have "inner (\<lambda>e. False) ?s0 ?s2"
    using inner_css inner_fold_clear inner_trans by blast
  from inner_effects[OF this] obtain dw where
    "effects ?s2 = effects ?s0 @ dw" "\<forall>e \<in> set dw. isDomWrite e" by auto
  then show ?thesis by (simp add: emit_def)
qed

lemma recheckAll_accepted:
  assumes "getAllWidgets H (injectCSS (emit RecheckAllEntered s)) = Inr ws" and "ws \<noteq> []"
    and "domAccepts H (uiClasses s)"
  shows "forEach (callClearWidgetUI H) ws (injectCSS (emit RecheckAllEntered s))
           = (None, fold clearWidgetUI ws (injectCSS (emit RecheckAllEntered s)))"
    and "recheckAll H s
           = auditLoop H ws 0 (fold clearWidgetUI ws (injectCSS (emit RecheckAllEntered s)))"
proof -
  let ?s1 = "injectCSS (emit RecheckAllEntered s)"
  have "uiClasses ?s1 = uiClasses s"
    by (simp add: uiClasses_injectCSS emit_def)
  with assms(3) show c: "forEach (callClearWidgetUI H) ws ?s1 = (None, fold clearWidgetUI ws ?s1)"
    by (simp add: forEach_clear_accepted)
  with assms(1,2) show "recheckAll H s = auditLoop H ws 0 (fold clearWidgetUI ws ?s1)"
    by (simp add: recheckAll_def Let_def)
qed

lemma recheckAll_failing:
  assumes "getAllWidgets H (injectCSS (emit RecheckAllEntered s)) = Inr ws" and "ws \<noteq> []"
    and "domAccepts H (uiClasses s)"
  shows "(\<forall>k. \<exists>e. axeRun H k = Inl e) \<Longrightarrow> maxRetries (theConfig s) = Some m \<Longrightarrow>
           recheckAll H s
             = (None, emits (failingRun (axeOptions s) m (debugLogging s))
                        (fold clearWidgetUI ws (injectCSS (emit RecheckAllEntered s))))"
    and "maxRetries (theConfig s) = None \<Longrightarrow>
           recheckAll H s = (None, fold clearWidgetUI ws (injectCSS (emit RecheckAllEntered s)))"
proof -
  let ?s0 = "emit RecheckAllEntered s"
  let ?s2 = "fold clearWidgetUI ws (injectCSS ?s0)"
  note st = recheckAll_start[of s ws]
  have c0: "theConfig ?s0 = theConfig s" "arrays ?s0 = arrays s"
    by (simp_all add: emit_def theConfig_def)
  have cfg: "theConfig ?s2 = theConfig s"
    using st sameSetup_theConfig[of ?s0 ?s2] c0 by simp
  have o: "axeOptions ?s2 = axeOptions s"
    using st axeOptions_cong[of ?s0 ?s2] axeOptions_eq[OF c0] by simp
  have d: "debugLogging ?s2 = debugLogging s"
    by (simp add: debugLogging_def cfg)
  note cl = recheckAll_accepted(2)[OF assms]
  show "recheckAll H s = (None, emits (failingRun (axeOptions s) m (debugLogging s)) ?s2)"
    if f: "\<forall>k. \<exists>e. axeRun H k = Inl e" and m: "maxRetries (theConfig s) = Some m"
  proof -
    have "auditLoop H ws 0 ?s2
            = (None, emits (failingRun (axeOptions ?s2) m (debugLogging ?s2)) ?s2)"
      using f by (rule auditLoop_always_failing) (simp_all add: cfg m st)
    with cl show ?thesis by (simp add: o d)
  qed
  show "recheckAll H s = (None, ?s2)" if m: "maxRetries (theConfig s) = None"
  proof -
    have "\<not> withinRetries 0 ?s2" by (simp add: withinRetries_def cfg m)
    then have "auditLoop H ws 0 ?s2 = (None, ?s2)"
      by (simp add: auditLoop.simps[of H ws 0 ?s2])
    with cl show ?thesis by simp
  qed
qed

section \<open>Lemmas about the configuration\<close>

lemma theConfig_updateConfig:
  "theConfig (updateConfig H n s) = mergeConfig H (spreadConfig (theConfig s) n)"
proof -
  let ?s1 = "s\<lparr> objects := (objects s)(nextRef s := mergeConfig H (spreadConfig (theConfig s) n)),
                config := nextRef s, nextRef := Suc (nextRef s) \<rparr>"
  let ?s2 = "case new_uiClasses n of Given p \<Rightarrow> ?s1\<lparr> uiClasses := createUIClasses ?s1 \<rparr>
              | _ \<Rightarrow> ?s1"
  have "theConfig ?s2 = mergeConfig H (spreadConfig (theConfig s) n)"
    by (simp add: theConfig_def split: key.splits)
  moreover have "theConfig (snd (recheckAll H ?s2)) = theConfig ?s2"
    using recheckAll_frame[of H ?s2] by (simp add: theConfig_def)
  ultimately show ?thesis by (simp add: updateConfig_def Let_def)
qed

lemma updateConfig_undefined_keys:
  "new_axeRules n = Undefined \<Longrightarrow>
     axeRules (theConfig (updateConfig H n s)) = Some DEFAULT_axeRules"
  "new_maxRetries n = Undefined \<Longrightarrow> maxRetries (theConfig (updateConfig H n s)) = None"
  "new_maxRetries n = Absent \<Longrightarrow>
     maxRetries (theConfig (updateConfig H n s)) = maxRetries (theConfig s)"
  "new_axeTags n = Given r \<Longrightarrow> axeTags (theConfig (updateConfig H n s)) = Some r"
  by (auto simp: theConfig_updateConfig mergeConfig_def spreadConfig_def spread_def
      orDefault_def Let_def split: option.splits)

section \<open>Claims\<close>





text \<open>
  C7. In every state a validator reaches from its construction at most one timer is pending.
  A call of \<open>debounceRecheck\<close> first clears the stored timer, when there is one, and then
  sets a new one, which is afterwards the only pending timer. A burst of requests, each
  arriving less than the delay of the previous request after it, followed by a wait of at
  least the last delay, enters exactly one audit.
\<close>

theorem debounce_one_pending_one_audit:
  "(constructed s0 \<longrightarrow> length (timers (run H acts s0)) \<le> 1)
   \<and> effects (debounceRecheck d s) =
       effects s @ (case recheckTimeout s of Some t \<Rightarrow> [ClearTimeout t] | None \<Rightarrow> [])
         @ [SetTimeout (nextTimer s) (effectiveDelay d s)]
   \<and> (constructed s0 \<longrightarrow>
        timers (debounceRecheck d (run H acts s0)) =
          [(nextTimer (run H acts s0), clock (run H acts s0) + effectiveDelay d (run H acts s0))])
   \<and> (constructed s0 \<longrightarrow> (\<forall>(d, g) \<in> set reqs. g < effectiveDelay d (run H acts s0)) \<longrightarrow>
        effectiveDelay lastDelay (run H acts s0) \<le> wait \<longrightarrow>
        audits (run H (acts @ burst reqs lastDelay wait) s0) = audits (run H acts s0) + 1)"
proof (intro conjI impI)
  assume "constructed s0"
  then have "pendingInvariant (run H acts s0)"
    by (simp add: pendingInvariant_run pendingInvariant_constructed)
  then show "length (timers (run H acts s0)) \<le> 1" by (simp add: pendingInvariant_def)
next
  show "effects (debounceRecheck d s) =
       effects s @ (case recheckTimeout s of Some t \<Rightarrow> [ClearTimeout t] | None \<Rightarrow> [])
         @ [SetTimeout (nextTimer s) (effectiveDelay d s)]"
    by (rule effects_debounceRecheck)
next
  assume "constructed s0"
  then have "pendingInvariant (run H acts s0)"
    by (simp add: pendingInvariant_run pendingInvariant_constructed)
  then show "timers (debounceRecheck d (run H acts s0)) =
          [(nextTimer (run H acts s0), clock (run H acts s0) + effectiveDelay d (run H acts s0))]"
    by (simp add: debounceRecheck_timers)
next
  let ?s = "run H acts s0"
  let ?q = "concat (map (\<lambda>(d, g). [DebounceRecheck d, Advance g]) reqs)"
  assume "constructed s0" and gaps: "\<forall>(d, g) \<in> set reqs. g < effectiveDelay d ?s"
    and w: "effectiveDelay lastDelay ?s \<le> wait"
  then have p: "pendingInvariant ?s"
    by (simp add: pendingInvariant_run pendingInvariant_constructed)
  note q = quiet_requests[OF p gaps, of H]
  have "effectiveDelay lastDelay (run H ?q ?s) \<le> wait"
    using w q by (simp add: effectiveDelay_cong[of "run H ?q ?s" ?s])
  with q have "audits (advance H wait (debounceRecheck lastDelay (run H ?q ?s)))
      = Suc (audits (run H ?q ?s))"
    by (simp add: last_request_fires_once)
  with q show "audits (run H (acts @ burst reqs lastDelay wait) s0) = audits ?s + 1"
    by (simp add: run_append burst_def) (simp add: run_def)
qed

theorem debounce_one_pending_witness:
  "constructed demoValidator
   \<and> length (timers (run demoHost [DebounceRecheck None, DebounceRecheck (Some 500)]
                 demoValidator)) \<le> 1
   \<and> timers (debounceRecheck (Some 500) (run demoHost [] demoValidator)) = [(1, 500)]
   \<and> audits (run demoHost ([] @ burst [(None, 100), (Some 500, 499)] None 300) demoValidator)
       = 1"
proof -
  have c: "constructed demoValidator"
    by (simp add: constructed_def demoValidator_def)
  have s: "run demoHost [] demoValidator = demoValidator"
    by (simp add: run_def)
  have e: "effectiveDelay None demoValidator = 300" "effectiveDelay (Some 500) demoValidator = 500"
    by (simp_all add: effectiveDelay_def theConfig_def demoValidator_def demoConfig_def)
  have a: "audits demoValidator = 0" "nextTimer demoValidator = 1" "clock demoValidator = 0"
    by (simp_all add: audits_def demoValidator_def)
  show ?thesis
    using c s e a
      debounce_one_pending_one_audit[of demoValidator demoHost
        "[DebounceRecheck None, DebounceRecheck (Some 500)]" None demoValidator "[]" None 0]
      debounce_one_pending_one_audit[of demoValidator demoHost "[]" "Some 500" demoValidator
        "[(None, 100), (Some 500, 499)]" None 300]
    by simp
qed

text \<open>
  C2. Every call of the engine made by \<open>recheckAll\<close> passes the options built from the
  configuration. These carry \<open>runOnly = {type: 'rule', values: axeRules}\<close> exactly when
  \<open>axeRules\<close> is non-empty, whatever \<open>axeTags\<close> is; \<open>runOnly = {type: 'tag', values: axeTags}\<close>
  exactly when \<open>axeRules\<close> is empty or missing and \<open>axeTags\<close> is non-empty; and no \<open>runOnly\<close>
  exactly when both are empty or missing.
\<close>

theorem engine_options_follow_configuration:
  "(AxeRunCall opts \<in> set (drop (length (effects s)) (effects (snd (recheckAll H s))))
      \<longrightarrow> opts = axeOptions s)
   \<and> (runOnly (axeOptions s) = Some \<lparr> run_type = Rule, run_values = vals \<rparr>
      \<longleftrightarrow> arrayOf s (axeRules (theConfig s)) = Some vals \<and> vals \<noteq> [])
   \<and> (runOnly (axeOptions s) = Some \<lparr> run_type = Tag, run_values = vals \<rparr>
      \<longleftrightarrow> (arrayOf s (axeRules (theConfig s)) = None \<or> arrayOf s (axeRules (theConfig s)) = Some [])
          \<and> arrayOf s (axeTags (theConfig s)) = Some vals \<and> vals \<noteq> [])
   \<and> (runOnly (axeOptions s) = None
      \<longleftrightarrow> (arrayOf s (axeRules (theConfig s)) = None \<or> arrayOf s (axeRules (theConfig s)) = Some [])
          \<and> (arrayOf s (axeTags (theConfig s)) = None \<or> arrayOf s (axeTags (theConfig s)) = Some []))"
proof -
  from recheckAll_axe_events[of H s] obtain ev where
    ev: "effects (snd (recheckAll H s)) = effects s @ ev" "axeEventsCarry (axeOptions s) ev"
    by blast
  have "AxeRunCall opts \<in> set (drop (length (effects s)) (effects (snd (recheckAll H s))))
      \<longrightarrow> opts = axeOptions s"
    using ev by (auto simp: axeEventsCarry_def)
  with axeOptions_cases[of s vals] show ?thesis by blast
qed

theorem engine_options_witness:
  "AxeRunCall \<lparr> runOnly = Some \<lparr> run_type = Rule, run_values = [''color-contrast''] \<rparr> \<rparr>
     \<in> set (drop (length (effects demoRulesValidator))
              (effects (snd (recheckAll demoHost demoRulesValidator))))
   \<and> arrayOf demoRulesValidator (axeTags (theConfig demoRulesValidator)) = Some [''wcag2a'']
   \<and> axeOptions demoRulesValidator
        = \<lparr> runOnly = Some \<lparr> run_type = Rule, run_values = [''color-contrast''] \<rparr> \<rparr>"
proof -
  have m: "AxeRunCall \<lparr> runOnly = Some \<lparr> run_type = Rule, run_values = [''color-contrast''] \<rparr> \<rparr>
     \<in> set (drop (length (effects demoRulesValidator))
              (effects (snd (recheckAll demoHost demoRulesValidator))))"
    by code_simp
  have t: "arrayOf demoRulesValidator (axeTags (theConfig demoRulesValidator)) = Some [''wcag2a'']"
    by (simp add: arrayOf_def theConfig_def demoRulesValidator_def demoValidator_def)
  show ?thesis
    using m t engine_options_follow_configuration[of
        "\<lparr> runOnly = Some \<lparr> run_type = Rule, run_values = [''color-contrast''] \<rparr> \<rparr>"
        demoRulesValidator demoHost "[''color-contrast'']"]
    by simp
qed

text \<open>
  C1 (amended). A call of \<open>recheckAll\<close> that resolves at least one widget, with class names
  of the overlay that the DOM accepts and an engine that fails at every invocation, raises
  nothing, and afterwards every matched widget has the state of zero violations without
  UI. With \<open>maxRetries\<close> = m the engine calls, pauses and console output of the call are, in
  this order, m times an engine call followed by a pause of 50 ms, then one last engine
  call (and the warning when debug logging is on), so the engine is invoked m + 1 times;
  with \<open>maxRetries\<close> undefined the engine is not invoked. When the class names are usable,
  these are the only effects after the widgets are cleared, and afterwards no matched
  widget shows an overlay under the class names of the state. When the DOM rejects the
  outline class or the overlay selector at the first widget, the call raises that error,
  and the engine is not invoked. As stated the claim fails: with an empty outline class an
  exception escapes, and after the badge class has been renamed the badge rendered under
  the earlier name stays on the widget.
\<close>

theorem recheckAll_when_engine_always_fails:
  assumes "getAllWidgets H (injectCSS (emit RecheckAllEntered s)) = Inr ws" and "ws \<noteq> []"
  shows "(domAccepts H (uiClasses s) \<longrightarrow> (\<forall>k. \<exists>e. axeRun H k = Inl e) \<longrightarrow>
            fst (recheckAll H s) = None
            \<and> (maxRetries (theConfig s) = Some m \<longrightarrow>
                filter isAuditEvent (drop (length (effects s)) (effects (snd (recheckAll H s))))
                  = concat (replicate m [AxeRunCall (axeOptions s), Pause 50])
                    @ AxeRunCall (axeOptions s) # (if debugLogging s then [ConsoleWarn] else [])
                \<and> axeCalls (snd (recheckAll H s)) = axeCalls s + (m + 1))
            \<and> (maxRetries (theConfig s) = None \<longrightarrow>
                axeCalls (snd (recheckAll H s)) = axeCalls s)
            \<and> (\<forall>w \<in> set ws. getWidgetState (snd (recheckAll H s)) w
                                = \<lparr> lastViolationCount = 0, hasUI = False \<rparr>))
    \<and> (usableClasses H (uiClasses s) \<longrightarrow> (\<forall>k. \<exists>e. axeRun H k = Inl e) \<longrightarrow>
            (maxRetries (theConfig s) = Some m \<longrightarrow>
                effects (snd (recheckAll H s)) =
                  effects (fold clearWidgetUI ws (injectCSS (emit RecheckAllEntered s)))
                    @ concat (replicate m [AxeRunCall (axeOptions s), Pause 50])
                    @ AxeRunCall (axeOptions s) # (if debugLogging s then [ConsoleWarn] else []))
            \<and> (maxRetries (theConfig s) = None \<longrightarrow>
                snd (recheckAll H s)
                  = fold clearWidgetUI ws (injectCSS (emit RecheckAllEntered s)))
            \<and> (\<forall>w \<in> set ws. \<not> hasOverlay (snd (recheckAll H s)) w))
    \<and> (clearRejected H (hd ws) (injectCSS (emit RecheckAllEntered s)) = Some (e, s') \<longrightarrow>
          recheckAll H s = (Some e, s') \<and> axeCalls s' = axeCalls s)"
proof -
  let ?s2 = "fold clearWidgetUI ws (injectCSS (emit RecheckAllEntered s))"
  let ?run = "failingRun (axeOptions s) m (debugLogging s)"
  note st = recheckAll_start[of s ws]
  from recheckAll_start_effects[of ws s] obtain dw where
    dw: "effects ?s2 = effects s @ RecheckAllEntered # dw" "\<forall>e \<in> set dw. isDomWrite e"
    by blast
  have q: "filter isAuditEvent dw = []"
    using dw(2) by (auto simp: filter_empty_conv domWrite_not_auditEvent)
  have c2: "\<forall>w \<in> set ws. getWidgetState ?s2 w = \<lparr> lastViolationCount = 0, hasUI = False \<rparr>
                        \<and> \<not> hasOverlay ?s2 w"
    using st by (simp add: cleared_def list_all_iff)
  have S: "effects (snd (recheckAll H s)) = effects ?s2 @ ?run
            \<and> filter isAuditEvent (drop (length (effects s)) (effects (snd (recheckAll H s))))
                = ?run
            \<and> axeCalls (snd (recheckAll H s)) = axeCalls s + (m + 1)"
    if u: "domAccepts H (uiClasses s)" and f: "\<forall>k. \<exists>e. axeRun H k = Inl e"
      and m: "maxRetries (theConfig s) = Some m"
  proof -
    have r: "recheckAll H s = (None, emits ?run ?s2)"
      using recheckAll_failing(1)[OF assms u f m] .
    have e: "effects (emits ?run ?s2) = effects ?s2 @ ?run" by (simp add: emits_def)
    have a: "axeCalls (emits ?run ?s2) = axeCalls s + (m + 1)"
      using st by (simp add: axeCalls_def e axeCalls_failingRun)
    have "filter isAuditEvent (drop (length (effects s)) (effects (emits ?run ?s2))) = ?run"
      by (simp add: e dw(1) q auditEvents_failingRun)
    with r e a show ?thesis by simp
  qed
  note S' = S[unfolded failingRun_def]
  have W: "fst (recheckAll H s) = None
            \<and> (\<forall>w \<in> set ws. getWidgetState (snd (recheckAll H s)) w
                                = \<lparr> lastViolationCount = 0, hasUI = False \<rparr>
                              \<and> \<not> hasOverlay (snd (recheckAll H s)) w)"
    if u: "domAccepts H (uiClasses s)" and f: "\<forall>k. \<exists>e. axeRun H k = Inl e"
  proof (cases "maxRetries (theConfig s)")
    case None
    from recheckAll_failing(2)[OF assms u None] c2 show ?thesis by simp
  next
    case (Some m')
    have "cleared ws (emits (failingRun (axeOptions s) m' (debugLogging s)) ?s2)"
      using st by (simp add: cleared_emits)
    with recheckAll_failing(1)[OF assms u f Some] show ?thesis
      by (simp add: cleared_def list_all_iff)
  qed
  have A: "fst (recheckAll H s) = None
            \<and> (maxRetries (theConfig s) = Some m \<longrightarrow>
                filter isAuditEvent (drop (length (effects s)) (effects (snd (recheckAll H s))))
                  = concat (replicate m [AxeRunCall (axeOptions s), Pause 50])
                    @ AxeRunCall (axeOptions s) # (if debugLogging s then [ConsoleWarn] else [])
                \<and> axeCalls (snd (recheckAll H s)) = axeCalls s + (m + 1))
            \<and> (maxRetries (theConfig s) = None \<longrightarrow>
                axeCalls (snd (recheckAll H s)) = axeCalls s)
            \<and> (\<forall>w \<in> set ws. getWidgetState (snd (recheckAll H s)) w
                                = \<lparr> lastViolationCount = 0, hasUI = False \<rparr>)"
    if u: "domAccepts H (uiClasses s)" and f: "\<forall>k. \<exists>e. axeRun H k = Inl e"
  proof -
    have 1: "maxRetries (theConfig s) = Some m \<longrightarrow>
                filter isAuditEvent (drop (length (effects s)) (effects (snd (recheckAll H s))))
                  = concat (replicate m [AxeRunCall (axeOptions s), Pause 50])
                    @ AxeRunCall (axeOptions s) # (if debugLogging s then [ConsoleWarn] else [])
                \<and> axeCalls (snd (recheckAll H s)) = axeCalls s + (m + 1)"
      using S'[OF u f] by blast
    have 2: "maxRetries (theConfig s) = None \<longrightarrow> axeCalls (snd (recheckAll H s)) = axeCalls s"
      using recheckAll_failing(2)[OF assms u] st by simp
    from W[OF u f] 1 2 show ?thesis by blast
  qed
  have B: "(maxRetries (theConfig s) = Some m \<longrightarrow>
                effects (snd (recheckAll H s)) =
                  effects ?s2
                    @ concat (replicate m [AxeRunCall (axeOptions s), Pause 50])
                    @ AxeRunCall (axeOptions s) # (if debugLogging s then [ConsoleWarn] else []))
            \<and> (maxRetries (theConfig s) = None \<longrightarrow> snd (recheckAll H s) = ?s2)
            \<and> (\<forall>w \<in> set ws. \<not> hasOverlay (snd (recheckAll H s)) w)"
    if v: "usableClasses H (uiClasses s)" and f: "\<forall>k. \<exists>e. axeRun H k = Inl e"
  proof -
    note u = usableClasses_accepted[OF v]
    have 1: "maxRetries (theConfig s) = Some m \<longrightarrow>
                effects (snd (recheckAll H s)) =
                  effects ?s2
                    @ concat (replicate m [AxeRunCall (axeOptions s), Pause 50])
                    @ AxeRunCall (axeOptions s) # (if debugLogging s then [ConsoleWarn] else [])"
      using S'[OF u f] by blast
    have 2: "maxRetries (theConfig s) = None \<longrightarrow> snd (recheckAll H s) = ?s2"
      using recheckAll_failing(2)[OF assms u] by simp
    from W[OF u f] 1 2 show ?thesis by blast
  qed
  have C: "recheckAll H s = (Some e, s') \<and> axeCalls s' = axeCalls s"
    if j: "clearRejected H (hd ws) (injectCSS (emit RecheckAllEntered s)) = Some (e, s')"
    using recheckAll_rejected[OF assms j] by simp
  from A B C show ?thesis by blast
qed

theorem recheckAll_engine_fails_witness:
  "getAllWidgets demoHost (injectCSS (emit RecheckAllEntered demoValidator)) = Inr [2, 4]
   \<and> domAccepts demoHost (uiClasses demoValidator)
   \<and> usableClasses demoHost (uiClasses demoValidator)
   \<and> maxRetries (theConfig demoValidator) = Some 1
   \<and> fst (recheckAll demoHost demoValidator) = None
   \<and> axeCalls (snd (recheckAll demoHost demoValidator)) = 2
   \<and> getWidgetState (snd (recheckAll demoHost demoValidator)) 2
       = \<lparr> lastViolationCount = 0, hasUI = False \<rparr>
   \<and> \<not> hasOverlay (snd (recheckAll demoHost demoValidator)) 4
   \<and> maxRetries (theConfig demoNoRetries) = None
   \<and> axeCalls (snd (recheckAll demoHost demoNoRetries)) = 0
   \<and> getAllWidgets demoHost (injectCSS (emit RecheckAllEntered demoNoOutline)) = Inr [2, 4]
   \<and> recheckAll demoHost demoNoOutline
       = (Some SyntaxError, injectCSS (emit RecheckAllEntered demoNoOutline))"
proof -
  have g: "getAllWidgets demoHost (injectCSS (emit RecheckAllEntered demoValidator)) = Inr [2, 4]"
    by code_simp
  have u: "usableClasses demoHost (uiClasses demoValidator)"
    by code_simp
  have f: "\<forall>k. \<exists>e. axeRun demoHost k = Inl e"
    by (simp add: demoHost_def)
  have m: "maxRetries (theConfig demoValidator) = Some 1"
    by (simp add: theConfig_def demoValidator_def demoConfig_def)
  have a: "axeCalls demoValidator = 0"
    by (simp add: axeCalls_def demoValidator_def)
  have d: "domAccepts demoHost (uiClasses demoValidator)"
    using u by (rule usableClasses_accepted)
  have gn: "getAllWidgets demoHost (injectCSS (emit RecheckAllEntered demoNoRetries)) = Inr [2, 4]"
    by code_simp
  have un: "domAccepts demoHost (uiClasses demoNoRetries)"
    by code_simp
  have mn: "maxRetries (theConfig demoNoRetries) = None"
    by (simp add: theConfig_def demoNoRetries_def demoValidator_def)
  have an: "axeCalls demoNoRetries = 0"
    by (simp add: axeCalls_def demoNoRetries_def demoValidator_def)
  have g': "getAllWidgets demoHost (injectCSS (emit RecheckAllEntered demoNoOutline)) = Inr [2, 4]"
    by code_simp
  have j: "clearRejected demoHost (hd [2, 4]) (injectCSS (emit RecheckAllEntered demoNoOutline))
            = Some (SyntaxError, injectCSS (emit RecheckAllEntered demoNoOutline))"
    by (simp add: clearRejected_def tokenError_def uiClasses_injectCSS emit_def demoNoOutline_def)
  from recheckAll_when_engine_always_fails[OF g, of 1 SyntaxError demoValidator] u d f m a
  have 1: "fst (recheckAll demoHost demoValidator) = None"
    "axeCalls (snd (recheckAll demoHost demoValidator)) = 2"
    "getWidgetState (snd (recheckAll demoHost demoValidator)) 2
       = \<lparr> lastViolationCount = 0, hasUI = False \<rparr>"
    "\<not> hasOverlay (snd (recheckAll demoHost demoValidator)) 4"
    by simp_all
  from recheckAll_when_engine_always_fails[OF gn, of 1 SyntaxError demoNoRetries] un f mn
  have "axeCalls (snd (recheckAll demoHost demoNoRetries)) = axeCalls demoNoRetries"
    by blast
  with an have 2: "axeCalls (snd (recheckAll demoHost demoNoRetries)) = 0"
    by simp
  from recheckAll_when_engine_always_fails[OF g', of 1 SyntaxError
      "injectCSS (emit RecheckAllEntered demoNoOutline)"] j
  have 3: "recheckAll demoHost demoNoOutline
       = (Some SyntaxError, injectCSS (emit RecheckAllEntered demoNoOutline))"
    by simp
  from g d u m 1 mn 2 g' 3 show ?thesis by blast
qed

theorem recheckAll_rejects_empty_outline_class:
  "getAllWidgets demoHost demoNoOutline = Inr [2, 4]
   \<and> axeRun demoHost 0 = Inl AxeFailure
   \<and> fst (recheckAll demoHost demoNoOutline) = Some SyntaxError
   \<and> axeCalls (snd (recheckAll demoHost demoNoOutline)) = 0
   \<and> childrenOf demoRenamed 2 = [3, 7, 8]
   \<and> getAllWidgets demoHost demoRenamed = Inr [2, 4]
   \<and> fst (recheckAll demoHost demoRenamed) = None
   \<and> axeCalls (snd (recheckAll demoHost demoRenamed)) = 2
   \<and> getWidgetState (snd (recheckAll demoHost demoRenamed)) 2
       = \<lparr> lastViolationCount = 0, hasUI = False \<rparr>
   \<and> childrenOf (snd (recheckAll demoHost demoRenamed)) 2 = [3, 7]"
  by code_simp

text \<open>
  C5 (amended). \<open>recheckAll\<close> first makes sure the style sheet is there and resolves the
  widget set from the configured selectors. When no widget matches it returns at once: the
  widget cache, the body of the document and the overlays of all elements are as before and
  the engine is not called. Otherwise, when the DOM accepts the class names of the
  overlay, it clears every matched widget, which raises nothing, before the engine is first
  called: each matched widget then has the state of zero violations without UI. When the
  class names are usable, no matched widget then shows an overlay under the class names of
  the state; clearing a widget changes the document only by removing the outline class of
  the state from the widget and the children of the widget that carry the badge or the
  popup class of the state, and leaves the document as it is when the widget shows no
  overlay. When the DOM rejects the outline class or the overlay selector at the first
  widget, the call raises that error, and the engine is not called. As stated the claim
  fails: an overlay on an element that no longer matches the selectors is not cleared by
  the call, with an empty outline class the clearing raises, and a badge rendered under an
  earlier badge class is not cleared.
\<close>

theorem recheckAll_resolves_then_clears:
  "(getAllWidgets H (injectCSS (emit RecheckAllEntered s)) = Inr [] \<longrightarrow>
      recheckAll H s = (None, injectCSS (emit RecheckAllEntered s))
      \<and> widgetCache (snd (recheckAll H s)) = widgetCache s
      \<and> body (document (snd (recheckAll H s))) = body (document s)
      \<and> (\<forall>w. hasOverlay (snd (recheckAll H s)) w = hasOverlay s w)
      \<and> axeCalls (snd (recheckAll H s)) = axeCalls s)
   \<and> (getAllWidgets H (injectCSS (emit RecheckAllEntered s)) = Inr ws \<and> ws \<noteq> []
      \<and> domAccepts H (uiClasses s) \<longrightarrow>
      fst (forEach (callClearWidgetUI H) ws (injectCSS (emit RecheckAllEntered s))) = None
      \<and> recheckAll H s
        = auditLoop H ws 0
            (snd (forEach (callClearWidgetUI H) ws (injectCSS (emit RecheckAllEntered s))))
      \<and> axeCalls (snd (forEach (callClearWidgetUI H) ws (injectCSS (emit RecheckAllEntered s))))
        = axeCalls s
      \<and> (\<forall>w \<in> set ws.
            getWidgetState
              (snd (forEach (callClearWidgetUI H) ws (injectCSS (emit RecheckAllEntered s)))) w
              = \<lparr> lastViolationCount = 0, hasUI = False \<rparr>))
   \<and> (getAllWidgets H (injectCSS (emit RecheckAllEntered s)) = Inr ws \<and> ws \<noteq> []
      \<and> usableClasses H (uiClasses s) \<longrightarrow>
      snd (forEach (callClearWidgetUI H) ws (injectCSS (emit RecheckAllEntered s)))
        = fold clearWidgetUI ws (injectCSS (emit RecheckAllEntered s))
      \<and> (\<forall>w \<in> set ws.
            \<not> hasOverlay (fold clearWidgetUI ws (injectCSS (emit RecheckAllEntered s))) w))
   \<and> (usableClasses H (uiClasses s) \<longrightarrow>
      document (clearWidgetUI w s) =
        mapDocument (atElement w (\<lambda>n. setChildNodes
                  (filter (\<lambda>k. \<not> isOverlay (uiClasses s) k) (childNodes n)) n))
          (mapDocument (atElement w
                  (\<lambda>n. setClassList (removeAll (OUTLINE (uiClasses s)) (classList n)) n))
             (document s))
      \<and> (\<not> hasOverlay s w \<longrightarrow> document (clearWidgetUI w s) = document s))
   \<and> (getAllWidgets H (injectCSS (emit RecheckAllEntered s)) = Inr ws \<and> ws \<noteq> []
      \<and> clearRejected H (hd ws) (injectCSS (emit RecheckAllEntered s)) = Some (e, s') \<longrightarrow>
      recheckAll H s = (Some e, s') \<and> axeCalls s' = axeCalls s)"
proof -
  let ?s0 = "emit RecheckAllEntered s"
  let ?s1 = "injectCSS ?s0"
  let ?s2 = "fold clearWidgetUI ws ?s1"
  let ?c = "forEach (callClearWidgetUI H) ws ?s1"
  have A: "recheckAll H s = (None, ?s1)
      \<and> widgetCache (snd (recheckAll H s)) = widgetCache s
      \<and> body (document (snd (recheckAll H s))) = body (document s)
      \<and> (\<forall>w. hasOverlay (snd (recheckAll H s)) w = hasOverlay s w)
      \<and> axeCalls (snd (recheckAll H s)) = axeCalls s"
    if g: "getAllWidgets H ?s1 = Inr []"
  proof -
    have r: "recheckAll H s = (None, ?s1)"
      using g by (simp add: recheckAll_def Let_def)
    have e: "widgetCache ?s0 = widgetCache s" "document ?s0 = document s"
      "axeCalls ?s0 = axeCalls s" "uiClasses ?s0 = uiClasses s"
      by (simp_all add: emit_def axeCalls_def)
    have "\<forall>w. hasOverlay ?s1 w = hasOverlay s w"
      using e by (simp add: hasOverlay_injectCSS hasOverlay_cong[of ?s0 s])
    then show ?thesis
      using injectCSS_frame[of ?s0] e by (simp add: r)
  qed
  have B: "fst ?c = None \<and> recheckAll H s = auditLoop H ws 0 (snd ?c)
      \<and> axeCalls (snd ?c) = axeCalls s
      \<and> (\<forall>w \<in> set ws. getWidgetState (snd ?c) w = \<lparr> lastViolationCount = 0, hasUI = False \<rparr>)"
    if g: "getAllWidgets H ?s1 = Inr ws \<and> ws \<noteq> [] \<and> domAccepts H (uiClasses s)"
  proof -
    from g have cl: "?c = (None, ?s2)" "recheckAll H s = auditLoop H ws 0 ?s2"
      using recheckAll_accepted[of H s ws] by simp_all
    moreover have "axeCalls ?s2 = axeCalls s"
      using recheckAll_start[of s ws] by simp
    moreover have "\<forall>w \<in> set ws. getWidgetState ?s2 w = \<lparr> lastViolationCount = 0, hasUI = False \<rparr>"
      using recheckAll_start[of s ws] by (simp add: cleared_def list_all_iff)
    ultimately show ?thesis by simp
  qed
  have C: "snd ?c = ?s2 \<and> (\<forall>w \<in> set ws. \<not> hasOverlay ?s2 w)"
    if g: "getAllWidgets H ?s1 = Inr ws \<and> ws \<noteq> [] \<and> usableClasses H (uiClasses s)"
  proof -
    from g have "?c = (None, ?s2)"
      using recheckAll_accepted(1)[of H s ws] usableClasses_accepted[of H "uiClasses s"] by simp
    moreover have "\<forall>w \<in> set ws. \<not> hasOverlay ?s2 w"
      using recheckAll_start[of s ws] by (simp add: cleared_def list_all_iff)
    ultimately show ?thesis by simp
  qed
  have D: "\<not> hasOverlay s w \<longrightarrow> document (clearWidgetUI w s) = document s"
    by (simp add: clearWidgetUI_without_overlay)
  have E: "recheckAll H s = (Some e, s') \<and> axeCalls s' = axeCalls s"
    if g: "getAllWidgets H ?s1 = Inr ws \<and> ws \<noteq> []
            \<and> clearRejected H (hd ws) ?s1 = Some (e, s')"
    using g recheckAll_rejected[of H s ws e s'] by simp
  from A B C D E clearWidgetUI_document[of w s] show ?thesis by blast
qed

theorem recheckAll_resolves_then_clears_witness:
  "getAllWidgets demoHost (injectCSS (emit RecheckAllEntered demoStale)) = Inr []
   \<and> hasOverlay (snd (recheckAll demoHost demoStale)) 2 = hasOverlay demoStale 2
   \<and> getAllWidgets demoHost (injectCSS (emit RecheckAllEntered demoValidator)) = Inr [2, 4]
   \<and> domAccepts demoHost (uiClasses demoValidator)
   \<and> usableClasses demoHost (uiClasses demoValidator)
   \<and> fst (forEach (callClearWidgetUI demoHost) [2, 4]
             (injectCSS (emit RecheckAllEntered demoValidator))) = None
   \<and> \<not> hasOverlay (fold clearWidgetUI [2, 4] (injectCSS (emit RecheckAllEntered demoValidator))) 2
   \<and> \<not> hasOverlay demoValidator 4
   \<and> document (clearWidgetUI 4 demoValidator) = document demoValidator
   \<and> getAllWidgets demoHost (injectCSS (emit RecheckAllEntered demoNoOutline)) = Inr [2, 4]
   \<and> recheckAll demoHost demoNoOutline
       = (Some SyntaxError, injectCSS (emit RecheckAllEntered demoNoOutline))"
proof -
  have g0: "getAllWidgets demoHost (injectCSS (emit RecheckAllEntered demoStale)) = Inr []"
    by code_simp
  have g1: "getAllWidgets demoHost (injectCSS (emit RecheckAllEntered demoValidator)) = Inr [2, 4]"
    by code_simp
  have u: "usableClasses demoHost (uiClasses demoValidator)"
    by code_simp
  have d: "domAccepts demoHost (uiClasses demoValidator)"
    using u by (rule usableClasses_accepted)
  have n: "\<not> hasOverlay demoValidator 4"
    by code_simp
  have g2: "getAllWidgets demoHost (injectCSS (emit RecheckAllEntered demoNoOutline)) = Inr [2, 4]"
    by code_simp
  have j: "clearRejected demoHost (hd [2, 4]) (injectCSS (emit RecheckAllEntered demoNoOutline))
            = Some (SyntaxError, injectCSS (emit RecheckAllEntered demoNoOutline))"
    by (simp add: clearRejected_def tokenError_def uiClasses_injectCSS emit_def demoNoOutline_def)
  from recheckAll_resolves_then_clears[of demoHost demoStale "[]" 4 SyntaxError demoStale] g0
  have a: "hasOverlay (snd (recheckAll demoHost demoStale)) 2 = hasOverlay demoStale 2"
    by blast
  note t = recheckAll_resolves_then_clears[of demoHost demoValidator "[2, 4]" 4 SyntaxError
      demoValidator]
  have ne: "[2::nat, 4] \<noteq> []" by simp
  from t g1 ne d have f: "fst (forEach (callClearWidgetUI demoHost) [2, 4]
             (injectCSS (emit RecheckAllEntered demoValidator))) = None"
    by blast
  from t g1 ne u have "\<forall>w \<in> set [2::nat, 4].
      \<not> hasOverlay (fold clearWidgetUI [2, 4]
                 (injectCSS (emit RecheckAllEntered demoValidator))) w"
    by blast
  then have b: "\<not> hasOverlay (fold clearWidgetUI [2, 4]
                 (injectCSS (emit RecheckAllEntered demoValidator))) 2"
    by simp
  from t u n have c: "document (clearWidgetUI 4 demoValidator) = document demoValidator"
    by blast
  from recheckAll_resolves_then_clears[of demoHost demoNoOutline "[2, 4]" 4 SyntaxError
      "injectCSS (emit RecheckAllEntered demoNoOutline)"] g2 j
  have e: "recheckAll demoHost demoNoOutline
       = (Some SyntaxError, injectCSS (emit RecheckAllEntered demoNoOutline))"
    by simp
  from g0 g1 d u n g2 a f b c e show ?thesis by blast
qed

theorem recheckAll_leaves_unmatched_overlay:
  "hasOverlay demoStale 2
   \<and> fst (recheckAll demoHost demoStale) = None
   \<and> hasOverlay (snd (recheckAll demoHost demoStale)) 2
   \<and> getAllWidgets demoHost demoNoOutline = Inr [2, 4]
   \<and> fst (recheckAll demoHost demoNoOutline) = Some SyntaxError
   \<and> childrenOf demoRenamed 2 = [3, 7, 8]
   \<and> getAllWidgets demoHost demoRenamed = Inr [2, 4]
   \<and> childrenOf (snd (recheckAll demoHost demoRenamed)) 2 = [3, 7]"
  by code_simp

text \<open>
  C3. When every target path is a selector the host accepts, the violations mapped to a
  widget are exactly the violations of the list, in order, that have an affected node whose
  target resolves by document lookup to an element the widget contains; and whenever the
  mapping returns, it returns this list. A target that resolves to no element contributes
  nothing, a widget contains itself, and a violation with affected nodes in two widgets is
  mapped to both.
\<close>

theorem violations_attributed_by_containment:
  "(usableTargets H vs \<longrightarrow> widgetViolations H d w vs = Inr (filter (attributed H d w) vs))
   \<and> (widgetViolations H d w vs = Inr r \<longrightarrow> r = filter (attributed H d w) vs)
   \<and> (attributed H d w v \<longleftrightarrow>
        (\<exists>n \<in> set (nodes v). \<exists>t element. target n = Some t
           \<and> querySelector H d (join '' '' t) = Inr (Some element) \<and> contains d w element))
   \<and> contains d w w"
proof (intro conjI impI)
  assume "usableTargets H vs"
  from widgetViolations_usable[OF this, of d w] obtain r' where
    "widgetViolations H d w vs = Inr r'" by blast
  with widgetViolations_Inr[OF this] show "widgetViolations H d w vs = Inr (filter (attributed H d w) vs)"
    by simp
next
  assume "widgetViolations H d w vs = Inr r"
  then show "r = filter (attributed H d w) vs" by (rule widgetViolations_Inr)
next
  show "attributed H d w v \<longleftrightarrow>
        (\<exists>n \<in> set (nodes v). \<exists>t element. target n = Some t
           \<and> querySelector H d (join '' '' t) = Inr (Some element) \<and> contains d w element)"
    by (rule attributed_iff)
next
  show "contains d w w" by (simp add: contains_def)
qed

theorem violations_attributed_witness:
  "usableTargets demoHost [imageAlt, linkName, twoCards, noElement]
   \<and> widgetViolations demoHost demoDocument 2 [imageAlt, linkName, twoCards, noElement]
       = Inr [imageAlt, twoCards]
   \<and> widgetViolations demoHost demoDocument 4 [imageAlt, linkName, twoCards, noElement]
       = Inr [linkName, twoCards]"
  using demo_attribution
    violations_attributed_by_containment[of demoHost "[imageAlt, linkName, twoCards, noElement]"
      demoDocument 2]
    violations_attributed_by_containment[of demoHost "[imageAlt, linkName, twoCards, noElement]"
      demoDocument 4]
  by simp

text \<open>
  C6 (amended). With an empty selector list the combined selector is the empty string,
  which the selector engine rejects: no widget is resolved, and the SyntaxError of
  \<open>querySelectorAll\<close> reaches the caller of \<open>clearAll\<close> and \<open>getWidgetStates\<close> and rejects the
  promise of \<open>recheckAll\<close>; the widget cache and the overlays stay as they are. As stated
  the claim fails: the operations are not silent.
\<close>

theorem empty_selector_list_raises:
  assumes "arrays s (widgetSelectors (theConfig s)) = []" and "\<not> selectorValid H []"
  shows "getCombinedSelector s = []
    \<and> getAllWidgets H s = Inl SyntaxError
    \<and> clearAll H s = (Some SyntaxError, s)
    \<and> getWidgetStates H s = Inl SyntaxError
    \<and> recheckAll H s = (Some SyntaxError, injectCSS (emit RecheckAllEntered s))
    \<and> widgetCache (snd (recheckAll H s)) = widgetCache s
    \<and> (\<forall>w. hasOverlay (snd (recheckAll H s)) w = hasOverlay s w)"
proof -
  let ?s0 = "emit RecheckAllEntered s"
  let ?s1 = "injectCSS ?s0"
  have g: "getAllWidgets H s = Inl SyntaxError"
    using assms by (rule getAllWidgets_no_selectors)
  have "sameSetup ?s0 ?s1" by (rule sameSetup_injectCSS)
  then have "theConfig ?s1 = theConfig s" "arrays ?s1 = arrays s"
    by (simp_all add: sameSetup_def theConfig_def emit_def)
  with assms have "getAllWidgets H ?s1 = Inl SyntaxError"
    by (simp add: getAllWidgets_no_selectors)
  then have r: "recheckAll H s = (Some SyntaxError, ?s1)"
    by (simp add: recheckAll_def Let_def)
  have e: "widgetCache ?s0 = widgetCache s" "document ?s0 = document s"
    "uiClasses ?s0 = uiClasses s"
    by (simp_all add: emit_def)
  have w: "widgetCache ?s1 = widgetCache s"
    using injectCSS_frame[of ?s0] e by simp
  have o: "\<forall>w. hasOverlay ?s1 w = hasOverlay s w"
    using e by (simp add: hasOverlay_injectCSS hasOverlay_cong[of ?s0 s])
  show ?thesis
    using assms(1) g r w o
    by (simp add: getCombinedSelector_def clearAll_def getWidgetStates_def)
qed

theorem empty_selector_list_witness:
  "arrays demoEmpty (widgetSelectors (theConfig demoEmpty)) = []
   \<and> \<not> selectorValid demoHost []
   \<and> clearAll demoHost demoEmpty = (Some SyntaxError, demoEmpty)
   \<and> getWidgetStates demoHost demoEmpty = Inl SyntaxError
   \<and> hasOverlay (snd (recheckAll demoHost demoEmpty)) 2 = hasOverlay demoEmpty 2"
proof -
  have a: "arrays demoEmpty (widgetSelectors (theConfig demoEmpty)) = []"
    by (simp add: demoEmpty_def theConfig_def demoRendered_def demoValidator_def demoConfig_def)
  have v: "\<not> selectorValid demoHost []"
    by (simp add: demoHost_def trim_def simpleValid_def stripScope_def)
  note t = empty_selector_list_raises[OF a v]
  from t have "clearAll demoHost demoEmpty = (Some SyntaxError, demoEmpty)"
    and "getWidgetStates demoHost demoEmpty = Inl SyntaxError"
    and "hasOverlay (snd (recheckAll demoHost demoEmpty)) 2 = hasOverlay demoEmpty 2"
    by blast+
  with a v show ?thesis by blast
qed

theorem empty_selector_list_not_silent:
  "fst (clearAll demoHost demoEmpty) = Some SyntaxError
   \<and> getWidgetStates demoHost demoEmpty = Inl SyntaxError
   \<and> fst (recheckAll demoHost demoEmpty) = Some SyntaxError"
  by code_simp

text \<open>
  C8. On the rendered page \<open>destroy\<close> clears the overlays and removes the style sheet, but
  the outside-click listener of the popup stays registered on the document: \<open>clearAll\<close> has
  removed the popup from the document before the popups are looked up to detach their
  handlers.
\<close>

theorem destroy_keeps_click_listener:
  "getAllWidgets demoHost demoRendered = Inr [2, 4]
   \<and> hasOverlay demoRendered 2
   \<and> clickListeners demoRendered = [8]
   \<and> fst (destroy demoHost demoRendered) = None
   \<and> \<not> hasOverlay (snd (destroy demoHost demoRendered)) 2
   \<and> getElementById (document (snd (destroy demoHost demoRendered))) ''wa11y-style'' = None
   \<and> effects (snd (destroy demoHost demoRendered)) =
       [ClassListRemove 2 ''wa11y-outline'', RemoveNode 7, RemoveNode 8,
        ClassListRemove 4 ''wa11y-outline'', RemoveNode 6]
   \<and> clickListeners (snd (destroy demoHost demoRendered)) = [8]"
  by code_simp

text \<open>
  C9 (amended). \<open>getConfig\<close> returns a new object: assigning its top-level fields leaves the
  configuration of the validator, the arrays, the combined selector and the engine options
  as they are. The copy is shallow: its array fields are the arrays of the validator. As
  stated the claim fails: pushing onto the selector list of the returned object changes the
  widgets the validator resolves.
\<close>

theorem getConfig_copy_is_shallow:
  assumes "config s < nextRef s"
  shows "fst (getConfig s) \<noteq> config (snd (getConfig s))
    \<and> config (snd (getConfig s)) = config s
    \<and> arrays (snd (getConfig s)) = arrays s
    \<and> objects (snd (getConfig s)) (fst (getConfig s)) = theConfig s
    \<and> theConfig (snd (getConfig s)) = theConfig s
    \<and> theConfig (assignField (fst (getConfig s)) f (snd (getConfig s))) = theConfig s
    \<and> arrays (assignField (fst (getConfig s)) f (snd (getConfig s))) = arrays s
    \<and> getCombinedSelector (assignField (fst (getConfig s)) f (snd (getConfig s)))
        = getCombinedSelector s
    \<and> axeOptions (assignField (fst (getConfig s)) f (snd (getConfig s))) = axeOptions s
    \<and> widgetSelectors (objects (snd (getConfig s)) (fst (getConfig s)))
        = widgetSelectors (theConfig s)"
proof -
  let ?r = "fst (getConfig s)"
  let ?s1 = "snd (getConfig s)"
  let ?s2 = "assignField ?r f ?s1"
  have r: "?r = nextRef s" by (simp add: getConfig_def)
  have ne: "?r \<noteq> config s" using assms r by simp
  have c1: "config ?s1 = config s" "arrays ?s1 = arrays s"
    "objects ?s1 = (objects s)(nextRef s := theConfig s)"
    by (simp_all add: getConfig_def)
  have t1: "theConfig ?s1 = theConfig s"
    using ne r by (simp add: theConfig_def c1)
  have c2: "config ?s2 = config s" "arrays ?s2 = arrays s"
    by (simp_all add: assignField_def c1)
  have t2: "theConfig ?s2 = theConfig s"
    using ne r t1 by (simp add: theConfig_def assignField_def c1)
  have g: "getCombinedSelector ?s2 = getCombinedSelector s"
    by (simp add: getCombinedSelector_def t2 c2)
  have o: "axeOptions ?s2 = axeOptions s"
    using t2 c2(2) by (rule axeOptions_eq)
  show ?thesis
    using ne c1 t1 c2 t2 g o r by (simp add: theConfig_def)
qed

theorem getConfig_copy_witness:
  "config demoValidator < nextRef demoValidator
   \<and> theConfig (assignField (fst (getConfig demoValidator))
                 (\<lambda>c. c\<lparr> widgetSelectors := 9, maxRetries := Some 7 \<rparr>)
                 (snd (getConfig demoValidator))) = theConfig demoValidator
   \<and> getCombinedSelector (assignField (fst (getConfig demoValidator))
                 (\<lambda>c. c\<lparr> widgetSelectors := 9, maxRetries := Some 7 \<rparr>)
                 (snd (getConfig demoValidator))) = getCombinedSelector demoValidator"
proof -
  have a: "config demoValidator < nextRef demoValidator"
    by (simp add: demoValidator_def)
  from getConfig_copy_is_shallow[OF a, of "\<lambda>c. c\<lparr> widgetSelectors := 9, maxRetries := Some 7 \<rparr>"] a
  show ?thesis by simp
qed

theorem getConfig_shares_selector_list:
  "getCombinedSelector demoValidator = ''.card-video''
   \<and> getAllWidgets demoHost demoValidator = Inr [2, 4]
   \<and> getCombinedSelector
        (arrayPush (widgetSelectors (objects (snd (getConfig demoValidator))
                                        (fst (getConfig demoValidator))))
           [''img''] (snd (getConfig demoValidator)))
       = ''.card-video, img''
   \<and> getAllWidgets demoHost
        (arrayPush (widgetSelectors (objects (snd (getConfig demoValidator))
                                        (fst (getConfig demoValidator))))
           [''img''] (snd (getConfig demoValidator)))
       = Inr [2, 3, 4]"
  by code_simp

end
